theory Spec2Isabelle
  imports Complex_Main "HOL-Library.Word" "HOL-Library.Multiset" "HOL-Library.Monad_Syntax"
begin

unbundle bit_operations_syntax

chapter \<open>KernelSight-AI: correlation, histograms and time buckets of the eBPF tracers\<close>

section \<open>Machine integers\<close>

type_synonym u8 = "8 word"
type_synonym u32 = "32 word"
type_synonym u64 = "64 word"

text \<open>\<^verbatim>\<open>#define MAX_SLOTS 32\<close> (io_latency_tracer.bpf.c and io_latency_tracer.c).\<close>

definition MAX_SLOTS :: nat where
  "MAX_SLOTS = 32"

section \<open>Histogram slot of a latency: \<^verbatim>\<open>log2\<close> (io_latency_tracer.bpf.c)\<close>

text \<open>
  One iteration of the unrolled bit scan, for loop index \<open>i\<close>:
  \<^verbatim>\<open>__u32 shift = (1 << i);
  if (temp >= (1ULL << shift)) { slot += shift; temp >>= shift; }\<close>
  The state is the pair \<open>(slot, temp)\<close>.
\<close>

definition log2_step :: "nat \<Rightarrow> u32 \<times> u64 \<Rightarrow> u32 \<times> u64" where
  "log2_step i st =
     (let shift = (2::nat) ^ i;
          slot = fst st;
          temp = snd st
      in if temp \<ge> push_bit shift 1
         then (slot + of_nat shift, drop_bit shift temp)
         else (slot, temp))"

text \<open>
  \<^verbatim>\<open>static __always_inline __u32 log2(__u64 v)\<close>: zero is answered at once; the loop
  runs for \<open>i = 5, 4, 3, 2, 1, 0\<close>; the slot is clamped to \<open>MAX_SLOTS - 1\<close>.
\<close>

definition log2 :: "u64 \<Rightarrow> u32" where
  "log2 v =
     (if v = 0 then 0
      else let slot = fst (foldl (\<lambda>st i. log2_step i st) (0, v) [5, 4, 3, 2, 1, 0])
           in if slot \<ge> of_nat MAX_SLOTS then of_nat MAX_SLOTS - 1 else slot)"


section \<open>Kernel hash maps\<close>

text \<open>
  A \<^verbatim>\<open>BPF_MAP_TYPE_HASH\<close> map is a partial function from keys to values with a fixed
  \<^verbatim>\<open>max_entries\<close>. \<^verbatim>\<open>bpf_map_lookup_elem\<close> is application of the map.
  \<^verbatim>\<open>bpf_map_update_elem(.., BPF_ANY)\<close> overwrites the value of a key that is present and
  inserts a new key only while the map holds fewer than \<^verbatim>\<open>max_entries\<close> keys; otherwise
  the call fails and the map stays as it is (no tracer looks at the return value).
  \<^verbatim>\<open>bpf_map_delete_elem\<close> removes the key.
\<close>

definition bpf_map_update_elem :: "nat \<Rightarrow> ('k \<rightharpoonup> 'v) \<Rightarrow> 'k \<Rightarrow> 'v \<Rightarrow> ('k \<rightharpoonup> 'v)" where
  "bpf_map_update_elem max_entries m k v =
     (if k \<in> dom m \<or> card (dom m) < max_entries then m(k \<mapsto> v) else m)"

definition bpf_map_delete_elem :: "('k \<rightharpoonup> 'v) \<Rightarrow> 'k \<Rightarrow> ('k \<rightharpoonup> 'v)" where
  "bpf_map_delete_elem m k = m(k := None)"

section \<open>High-latency syscall tracer (syscall_tracer.bpf.c)\<close>

text \<open>\<^verbatim>\<open>#define LATENCY_THRESHOLD_NS 10000000ULL\<close>\<close>

definition LATENCY_THRESHOLD_NS :: u64 where
  "LATENCY_THRESHOLD_NS = 10000000"

text \<open>\<^verbatim>\<open>struct syscall_event\<close>; \<open>ret_value\<close> is the signed \<^verbatim>\<open>__s64\<close>, read with \<open>sint\<close>.\<close>

record syscall_event =
  ev_timestamp :: u64
  ev_pid :: u32
  ev_tid :: u32
  ev_syscall_nr :: u32
  ev_latency_ns :: u64
  ev_ret_value :: u64
  ev_arg0 :: u64
  ev_cpu :: u32
  ev_uid :: u32
  ev_is_error :: u8
  ev_comm :: string

text \<open>\<^verbatim>\<open>struct syscall_entry_data\<close>\<close>

record syscall_entry_data =
  entry_timestamp :: u64
  entry_arg0 :: u64

text \<open>
  What one run of \<^verbatim>\<open>trace_syscall_enter\<close> reads from its surroundings:
  \<^verbatim>\<open>bpf_get_current_pid_tgid()\<close>, \<^verbatim>\<open>bpf_ktime_get_ns()\<close> and \<^verbatim>\<open>ctx->args[0]\<close>.
\<close>

record sys_enter_ctx =
  enter_pid_tgid :: u64
  enter_ktime :: u64
  enter_args0 :: u64

text \<open>
  What one run of \<^verbatim>\<open>trace_syscall_exit\<close> reads: the helpers' results, \<^verbatim>\<open>ctx->id\<close>
  and \<^verbatim>\<open>ctx->ret\<close> (both C \<^verbatim>\<open>long\<close>), and whether \<^verbatim>\<open>bpf_ringbuf_reserve\<close>
  would return a slot.
\<close>

record sys_exit_ctx =
  exit_pid_tgid :: u64
  exit_ktime :: u64
  exit_id :: u64
  exit_ret :: u64
  exit_cpu :: u32
  exit_uid_gid :: u64
  exit_comm :: string
  exit_reserve_ok :: bool

text \<open>
  The tracer's maps: \<^verbatim>\<open>syscall_start\<close> (hash, \<^verbatim>\<open>max_entries\<close> 8192, keyed by thread
  id) and the ring buffer \<^verbatim>\<open>events\<close>, kept as the list of records submitted so far.
\<close>

record syscall_state =
  syscall_start :: "u32 \<rightharpoonup> syscall_entry_data"
  syscall_events :: "syscall_event list"

definition syscall_start_max_entries :: nat where
  "syscall_start_max_entries = 8192"

text \<open>The state after loading: both maps empty.\<close>

definition syscall_init :: syscall_state where
  "syscall_init = \<lparr>syscall_start = Map.empty, syscall_events = []\<rparr>"

definition trace_syscall_enter :: "sys_enter_ctx \<Rightarrow> syscall_state \<Rightarrow> syscall_state" where
  "trace_syscall_enter ctx st =
     (let tid = enter_pid_tgid ctx;
          tid_key = (ucast tid :: u32);
          entry_data = \<lparr>entry_timestamp = enter_ktime ctx, entry_arg0 = enter_args0 ctx\<rparr>
      in st\<lparr>syscall_start :=
              bpf_map_update_elem syscall_start_max_entries (syscall_start st) tid_key entry_data\<rparr>)"

text \<open>
  Lines 77 to 88 of \<^verbatim>\<open>trace_syscall_exit\<close>: the lookup by thread id and the latency
  \<^verbatim>\<open>end_ts - entry_data->timestamp\<close> (unsigned 64-bit subtraction). \<open>None\<close> is the
  early \<^verbatim>\<open>return 0\<close> for a thread with no entry.
\<close>

definition syscall_exit_lookup ::
  "sys_exit_ctx \<Rightarrow> syscall_state \<Rightarrow> (syscall_entry_data \<times> u64) option" where
  "syscall_exit_lookup ctx st =
     (let tid = (ucast (exit_pid_tgid ctx) :: u32)
      in case syscall_start st tid of
           None \<Rightarrow> None
         | Some entry_data \<Rightarrow>
             (let end_ts = exit_ktime ctx;
                  latency = end_ts - entry_timestamp entry_data
              in Some (entry_data, latency)))"

text \<open>
  \<^verbatim>\<open>trace_syscall_exit\<close>: after the lookup, the threshold filter, the ring-buffer
  reservation, the record, and the deletion of the entry on each of the three paths.
\<close>

definition trace_syscall_exit :: "sys_exit_ctx \<Rightarrow> syscall_state \<Rightarrow> syscall_state" where
  "trace_syscall_exit ctx st =
     (let tid_pid = exit_pid_tgid ctx;
          tid = (ucast tid_pid :: u32);
          pid = (ucast (drop_bit 32 tid_pid) :: u32)
      in case syscall_exit_lookup ctx st of
           None \<Rightarrow> st
         | Some (entry_data, latency) \<Rightarrow>
             if latency < LATENCY_THRESHOLD_NS
             then st\<lparr>syscall_start := bpf_map_delete_elem (syscall_start st) tid\<rparr>
             else if \<not> exit_reserve_ok ctx
             then st\<lparr>syscall_start := bpf_map_delete_elem (syscall_start st) tid\<rparr>
             else
               (let event = \<lparr>ev_timestamp = exit_ktime ctx,
                              ev_pid = pid,
                              ev_tid = tid,
                              ev_syscall_nr = ucast (exit_id ctx),
                              ev_latency_ns = latency,
                              ev_ret_value = exit_ret ctx,
                              ev_arg0 = entry_arg0 entry_data,
                              ev_cpu = exit_cpu ctx,
                              ev_uid = ucast (exit_uid_gid ctx AND 0xFFFFFFFF),
                              ev_is_error = (if sint (exit_ret ctx) < 0 then 1 else 0),
                              ev_comm = exit_comm ctx\<rparr>
                in st\<lparr>syscall_events := syscall_events st @ [event],
                       syscall_start := bpf_map_delete_elem (syscall_start st) tid\<rparr>))"


section \<open>Block I/O latency tracer, kernel side (io_latency_tracer.bpf.c)\<close>

text \<open>\<^verbatim>\<open>struct hist\<close>: the array \<^verbatim>\<open>__u32 slots[MAX_SLOTS]\<close> as a list of 32 words.\<close>

record hist =
  slots :: "u32 list"

text \<open>\<^verbatim>\<open>struct io_stats\<close>\<close>

record io_stats =
  read_hist :: hist
  write_hist :: hist
  read_count :: u64
  write_count :: u64
  read_bytes :: u64
  write_bytes :: u64

text \<open>\<^verbatim>\<open>struct request_key\<close> and \<^verbatim>\<open>struct io_start\<close>\<close>

record request_key =
  dev :: u32
  sector :: u64

record io_start =
  io_timestamp :: u64

text \<open>
  A structure as \<^verbatim>\<open>calloc\<close> or a fresh array map holds it: every counter zero.
\<close>

definition zero_hist :: hist where
  "zero_hist = \<lparr>slots = replicate MAX_SLOTS 0\<rparr>"

definition zero_stats :: io_stats where
  "zero_stats = \<lparr>read_hist = zero_hist, write_hist = zero_hist,
                  read_count = 0, write_count = 0, read_bytes = 0, write_bytes = 0\<rparr>"

text \<open>
  What \<^verbatim>\<open>trace_block_rq_issue\<close> reads: \<^verbatim>\<open>ctx->dev\<close>, \<^verbatim>\<open>ctx->sector\<close> and the clock.
\<close>

record block_rq_issue_ctx =
  issue_dev :: u32
  issue_sector :: u64
  issue_ktime :: u64

text \<open>
  What \<^verbatim>\<open>trace_block_rq_complete\<close> reads: the fields of
  \<^verbatim>\<open>struct trace_event_raw_block_rq_complete\<close> it uses, the clock, and the CPU it runs on
  (which selects the copy of the per-CPU array). \<open>complete_rwbs\<close> holds the characters of
  \<^verbatim>\<open>char rwbs[8]\<close> before the terminating NUL, so the empty string stands for an array
  whose first byte is NUL.
\<close>

record block_rq_complete_ctx =
  complete_dev :: u32
  complete_sector :: u64
  complete_nr_sector :: u32
  complete_rwbs :: string
  complete_ktime :: u64
  complete_cpu :: nat

text \<open>
  The maps: \<^verbatim>\<open>io_start_map\<close> (hash, \<^verbatim>\<open>max_entries\<close> 10240) and \<^verbatim>\<open>io_stats_map\<close>, a
  \<^verbatim>\<open>BPF_MAP_TYPE_PERCPU_ARRAY\<close> with the single key 0: one \<^verbatim>\<open>struct io_stats\<close> per
  possible CPU, here the list indexed by CPU.
\<close>

record io_state =
  io_start_map :: "request_key \<rightharpoonup> io_start"
  io_stats_map :: "io_stats list"

definition io_start_max_entries :: nat where
  "io_start_max_entries = 10240"

text \<open>The state after loading on a machine with \<open>nr_cpus\<close> possible CPUs.\<close>

definition io_init :: "nat \<Rightarrow> io_state" where
  "io_init nr_cpus = \<lparr>io_start_map = Map.empty, io_stats_map = replicate nr_cpus zero_stats\<rparr>"

definition trace_block_rq_issue :: "block_rq_issue_ctx \<Rightarrow> io_state \<Rightarrow> io_state" where
  "trace_block_rq_issue ctx st =
     (let key = \<lparr>dev = issue_dev ctx, sector = issue_sector ctx\<rparr>;
          start = \<lparr>io_timestamp = issue_ktime ctx\<rparr>
      in st\<lparr>io_start_map :=
              bpf_map_update_elem io_start_max_entries (io_start_map st) key start\<rparr>)"

text \<open>
  \<^verbatim>\<open>bpf_map_lookup_elem(&io_stats_map, &stats_key)\<close> with key 0 on the CPU \<open>cpu\<close>: the
  pointer to that CPU's copy, or NULL.
\<close>

definition percpu_lookup :: "io_stats list \<Rightarrow> nat \<Rightarrow> io_stats option" where
  "percpu_lookup arr cpu = (if cpu < length arr then Some (arr ! cpu) else None)"

text \<open>\<^verbatim>\<open>__sync_fetch_and_add(&h->slots[slot], 1)\<close>\<close>

definition hist_add1 :: "hist \<Rightarrow> u32 \<Rightarrow> hist" where
  "hist_add1 h slot = h\<lparr>slots := (slots h)[unat slot := slots h ! unat slot + 1]\<rparr>"

text \<open>
  \<^verbatim>\<open>trace_block_rq_complete\<close>. The byte count \<^verbatim>\<open>ctx->nr_sector * 512\<close> is a product of a
  \<^verbatim>\<open>__u32\<close> and an \<^verbatim>\<open>int\<close>, so it is computed in 32 bits and then widened for the
  64-bit addition. \<^verbatim>\<open>goto cleanup\<close> is the branch that only deletes the start record.
\<close>

definition trace_block_rq_complete :: "block_rq_complete_ctx \<Rightarrow> io_state \<Rightarrow> io_state" where
  "trace_block_rq_complete ctx st =
     (let key = \<lparr>dev = complete_dev ctx, sector = complete_sector ctx\<rparr>
      in case io_start_map st key of
           None \<Rightarrow> st
         | Some start \<Rightarrow>
             (let end_ts = complete_ktime ctx;
                  latency_ns = end_ts - io_timestamp start;
                  latency_us = latency_ns div 1000;
                  is_read = (case complete_rwbs ctx of [] \<Rightarrow> False | op # _ \<Rightarrow> op = CHR ''R'');
                  bytes = (ucast (complete_nr_sector ctx * 512) :: u64)
              in case percpu_lookup (io_stats_map st) (complete_cpu ctx) of
                   None \<Rightarrow> st\<lparr>io_start_map := bpf_map_delete_elem (io_start_map st) key\<rparr>
                 | Some stats \<Rightarrow>
                     (let slot = log2 latency_us;
                          stats' =
                            (if is_read
                             then stats\<lparr>read_hist := hist_add1 (read_hist stats) slot,
                                        read_count := read_count stats + 1,
                                        read_bytes := read_bytes stats + bytes\<rparr>
                             else stats\<lparr>write_hist := hist_add1 (write_hist stats) slot,
                                        write_count := write_count stats + 1,
                                        write_bytes := write_bytes stats + bytes\<rparr>)
                      in st\<lparr>io_stats_map := (io_stats_map st)[complete_cpu ctx := stats'],
                             io_start_map := bpf_map_delete_elem (io_start_map st) key\<rparr>)))"

section \<open>Block I/O latency tracer, user side (io_latency_tracer.c)\<close>

text \<open>
  \<^verbatim>\<open>double\<close> values are real numbers here and the three \<^verbatim>\<open>double\<close> operations of
  \<^verbatim>\<open>calculate_percentile\<close> are exact. The conversion \<^verbatim>\<open>(unsigned long long)x\<close> drops
  the fraction; C leaves it undefined when the integer part is negative or does not fit
  in 64 bits, which is \<open>None\<close>.
\<close>

definition double_to_ull :: "real \<Rightarrow> u64 option" where
  "double_to_ull x =
     (if - 1 < x \<and> x < 2 ^ 64 then Some (of_nat (nat \<lfloor>x\<rfloor>)) else None)"

text \<open>
  The value returned from inside the loop at index \<open>i\<close>:
  \<^verbatim>\<open>bucket_start = (i == 0) ? 0 : (1ULL << i); bucket_end = (1ULL << (i + 1));
  value = (bucket_start + bucket_end) / 2.0\<close>
\<close>

definition bucket_midpoint :: "nat \<Rightarrow> real" where
  "bucket_midpoint i =
     (let bucket_start = (if i = 0 then 0 else push_bit i 1 :: u64);
          bucket_end = (push_bit (i + 1) 1 :: u64)
      in real (unat (bucket_start + bucket_end)) / 2)"

text \<open>
  The loop \<^verbatim>\<open>for (int i = 0; i < MAX_SLOTS; i++)\<close> of \<^verbatim>\<open>calculate_percentile\<close> over the
  indices still to visit, with the running \<^verbatim>\<open>cumulative\<close>. \<open>Some\<close> is the \<^verbatim>\<open>return\<close>
  inside the loop, \<open>None\<close> is leaving the loop at its end.
\<close>

fun percentile_walk :: "hist \<Rightarrow> u64 \<Rightarrow> u64 \<Rightarrow> nat list \<Rightarrow> real option" where
  "percentile_walk h target cumulative [] = None"
| "percentile_walk h target cumulative (i # is) =
     (let cumulative' = cumulative + ucast (slots h ! i)
      in if cumulative' \<ge> target then Some (bucket_midpoint i)
         else percentile_walk h target cumulative' is)"

text \<open>
  \<^verbatim>\<open>calculate_percentile\<close>, with \<open>total_n\<close> for the parameter \<^verbatim>\<open>total\<close>. The outer
  \<open>None\<close> is the undefined conversion of the target;
  after a loop that ends without returning comes \<^verbatim>\<open>return (1ULL << MAX_SLOTS) / 2.0\<close>.
\<close>

definition calculate_percentile :: "hist \<Rightarrow> u64 \<Rightarrow> real \<Rightarrow> real option" where
  "calculate_percentile h total_n percentile =
     (if total_n = 0 then Some 0
      else case double_to_ull (real (unat total_n) * percentile / 100) of
             None \<Rightarrow> None
           | Some target \<Rightarrow>
               (case percentile_walk h target 0 [0..<MAX_SLOTS] of
                  Some v \<Rightarrow> Some v
                | None \<Rightarrow> Some (real (unat (push_bit MAX_SLOTS 1 :: u64)) / 2)))"

text \<open>\<^verbatim>\<open>get_max_latency\<close>: the loop runs from slot 31 down to slot 0.\<close>

fun max_latency_walk :: "hist \<Rightarrow> nat list \<Rightarrow> real" where
  "max_latency_walk h [] = 0"
| "max_latency_walk h (i # is) =
     (if slots h ! i > 0 then real (unat (push_bit (i + 1) 1 :: u64))
      else max_latency_walk h is)"

definition get_max_latency :: "hist \<Rightarrow> real" where
  "get_max_latency h = max_latency_walk h (rev [0..<MAX_SLOTS])"

text \<open>
  The line \<^verbatim>\<open>print_stats\<close> writes, as the record of the numbers it prints (the
  \<^verbatim>\<open>time_str\<close> field, made by \<^verbatim>\<open>localtime\<close> from the timestamp, is left out).
\<close>

record io_summary =
  out_timestamp :: u64
  out_read_count :: u64
  out_read_bytes :: u64
  out_read_p50 :: real
  out_read_p95 :: real
  out_read_p99 :: real
  out_read_max :: real
  out_write_count :: u64
  out_write_bytes :: u64
  out_write_p50 :: real
  out_write_p95 :: real
  out_write_p99 :: real
  out_write_max :: real

text \<open>
  The four numbers of one direction in \<^verbatim>\<open>print_stats\<close>: all 0 unless the direction's
  count is positive.
\<close>

definition direction_percentiles :: "hist \<Rightarrow> u64 \<Rightarrow> (real \<times> real \<times> real \<times> real) option" where
  "direction_percentiles h cnt =
     (if cnt > 0
      then do {
        p50 \<leftarrow> calculate_percentile h cnt 50;
        p95 \<leftarrow> calculate_percentile h cnt 95;
        p99 \<leftarrow> calculate_percentile h cnt 99;
        Some (p50, p95, p99, get_max_latency h)
      }
      else Some (0, 0, 0, 0))"

definition print_stats :: "io_stats \<Rightarrow> u64 \<Rightarrow> io_summary option" where
  "print_stats stats timestamp =
     do {
       (read_p50, read_p95, read_p99, read_max) \<leftarrow>
          direction_percentiles (read_hist stats) (read_count stats);
       (write_p50, write_p95, write_p99, write_max) \<leftarrow>
          direction_percentiles (write_hist stats) (write_count stats);
       Some \<lparr>out_timestamp = timestamp,
             out_read_count = read_count stats, out_read_bytes = read_bytes stats,
             out_read_p50 = read_p50, out_read_p95 = read_p95, out_read_p99 = read_p99,
             out_read_max = read_max,
             out_write_count = write_count stats, out_write_bytes = write_bytes stats,
             out_write_p50 = write_p50, out_write_p95 = write_p95, out_write_p99 = write_p99,
             out_write_max = write_max\<rparr>
     }"

text \<open>
  The body of the loop over CPUs in \<^verbatim>\<open>merge_stats\<close>: the four 64-bit totals and, for
  every \<open>i < MAX_SLOTS\<close>, both histogram slots are added to \<open>merged\<close>.
\<close>

definition merge_hist :: "hist \<Rightarrow> hist \<Rightarrow> hist" where
  "merge_hist m c = \<lparr>slots = map (\<lambda>i. slots m ! i + slots c ! i) [0..<MAX_SLOTS]\<rparr>"

definition merge_cpu :: "io_stats \<Rightarrow> io_stats \<Rightarrow> io_stats" where
  "merge_cpu merged c =
     \<lparr>read_hist = merge_hist (read_hist merged) (read_hist c),
      write_hist = merge_hist (write_hist merged) (write_hist c),
      read_count = read_count merged + read_count c,
      write_count = write_count merged + write_count c,
      read_bytes = read_bytes merged + read_bytes c,
      write_bytes = write_bytes merged + write_bytes c\<rparr>"

text \<open>
  \<^verbatim>\<open>merge_stats\<close>. \<open>calloc_ok\<close> says whether \<^verbatim>\<open>calloc\<close> returned memory; when it did not,
  the function returns before touching \<open>merged\<close>. \<open>lookup\<close> is what
  \<^verbatim>\<open>bpf_map_lookup_elem\<close> copied out, one entry per possible CPU, or \<open>None\<close> when the
  call failed, which leaves \<open>merged\<close> zeroed.
\<close>

definition merge_stats :: "bool \<Rightarrow> io_stats list option \<Rightarrow> io_stats \<Rightarrow> io_stats" where
  "merge_stats calloc_ok lookup merged =
     (if \<not> calloc_ok then merged
      else case lookup of
             None \<Rightarrow> zero_stats
           | Some cpu_stats \<Rightarrow> foldl merge_cpu zero_stats cpu_stats)"

text \<open>
  \<^verbatim>\<open>clear_stats\<close>: a zeroed value for every CPU is written under key 0, unless
  \<^verbatim>\<open>calloc\<close> or the update fails.
\<close>

definition clear_stats :: "bool \<Rightarrow> bool \<Rightarrow> io_stats list \<Rightarrow> io_stats list" where
  "clear_stats calloc_ok update_ok shards =
     (if \<not> calloc_ok then shards
      else if update_ok then replicate (length shards) zero_stats else shards)"

text \<open>
  What one iteration of the loop in \<^verbatim>\<open>main\<close> takes from outside: \<^verbatim>\<open>time(NULL)\<close>, the
  results of the two allocations and the two map calls, and the content of the
  uninitialised local \<^verbatim>\<open>merged_stats\<close>.
\<close>

record flush_env =
  env_time :: u64
  env_merge_calloc_ok :: bool
  env_lookup_ok :: bool
  env_clear_calloc_ok :: bool
  env_update_ok :: bool
  env_uninitialised :: io_stats

text \<open>
  One iteration of \<^verbatim>\<open>while (!exiting)\<close> after \<^verbatim>\<open>sleep(1)\<close>, on the per-CPU array and
  the lines written so far. \<open>None\<close> is undefined behaviour inside \<^verbatim>\<open>print_stats\<close>.
\<close>

definition flush_iteration ::
  "flush_env \<Rightarrow> io_stats list \<times> io_summary list \<Rightarrow> (io_stats list \<times> io_summary list) option" where
  "flush_iteration env st =
     (let shards = fst st;
          out = snd st;
          timestamp = env_time env * 1000000000;
          merged_stats = merge_stats (env_merge_calloc_ok env)
                           (if env_lookup_ok env then Some shards else None)
                           (env_uninitialised env)
      in do {
           out' \<leftarrow> (if read_count merged_stats > 0 \<or> write_count merged_stats > 0
                    then map_option (\<lambda>line. out @ [line]) (print_stats merged_stats timestamp)
                    else Some out);
           Some (clear_stats (env_clear_calloc_ok env) (env_update_ok env) shards, out')
         })"

section \<open>Scheduler tracer (sched_tracer.bpf.c)\<close>

text \<open>\<^verbatim>\<open>#define TASK_COMM_LEN 16\<close> and \<^verbatim>\<open>#define NSEC_PER_SEC 1000000000ULL\<close>\<close>

definition TASK_COMM_LEN :: nat where
  "TASK_COMM_LEN = 16"

definition NSEC_PER_SEC :: u64 where
  "NSEC_PER_SEC = 1000000000"

text \<open>
  \<^verbatim>\<open>struct bucket_stats\<close>, \<^verbatim>\<open>struct bucket_key\<close> and \<^verbatim>\<open>struct process_state\<close>. A
  \<^verbatim>\<open>char comm[TASK_COMM_LEN]\<close> is the string before its NUL.
\<close>

record bucket_stats =
  time_bucket :: u64
  pid :: u32
  comm :: string
  context_switches :: u64
  voluntary_switches :: u64
  involuntary_switches :: u64
  wakeups :: u64
  cpu_time_ns :: u64
  total_timeslice_ns :: u64
  timeslice_count :: u32

record bucket_key =
  key_pid :: u32
  key_time_bucket :: u64

record process_state =
  last_switch_ts :: u64
  last_bucket :: u64
  state_comm :: string

text \<open>
  The maps \<^verbatim>\<open>process_state_map\<close> and \<^verbatim>\<open>bucket_aggregates\<close> (hash, \<^verbatim>\<open>max_entries\<close>
  10240 each) and the ring buffer \<^verbatim>\<open>events\<close> as the list of submitted records.
\<close>

record sched_state =
  process_state_map :: "u32 \<rightharpoonup> process_state"
  bucket_aggregates :: "bucket_key \<rightharpoonup> bucket_stats"
  sched_events :: "bucket_stats list"

definition sched_max_entries :: nat where
  "sched_max_entries = 10240"

text \<open>
  \<^verbatim>\<open>emit_bucket_stats\<close>: when the reservation fails nothing is written; otherwise the
  ten fields are copied into the reserved record, which is submitted.
\<close>

definition emit_bucket_stats :: "bool \<Rightarrow> bucket_stats \<Rightarrow> bucket_stats list \<Rightarrow> bucket_stats list" where
  "emit_bucket_stats reserve_ok stats events =
     (if \<not> reserve_ok then events
      else events @ [\<lparr>time_bucket = time_bucket stats,
                       pid = pid stats,
                       comm = comm stats,
                       context_switches = context_switches stats,
                       voluntary_switches = voluntary_switches stats,
                       involuntary_switches = involuntary_switches stats,
                       wakeups = wakeups stats,
                       cpu_time_ns = cpu_time_ns stats,
                       total_timeslice_ns = total_timeslice_ns stats,
                       timeslice_count = timeslice_count stats\<rparr>])"

text \<open>
  \<^verbatim>\<open>update_bucket_stats\<close>: an existing bucket is changed through the pointer the lookup
  returned; a new one goes through \<^verbatim>\<open>bpf_map_update_elem\<close>.
\<close>

definition update_bucket_stats ::
  "u32 \<Rightarrow> u64 \<Rightarrow> u64 \<Rightarrow> bool \<Rightarrow> bool \<Rightarrow> string
     \<Rightarrow> (bucket_key \<rightharpoonup> bucket_stats) \<Rightarrow> (bucket_key \<rightharpoonup> bucket_stats)" where
  "update_bucket_stats p tb cpu_time is_voluntary is_wakeup cm buckets =
     (let key = \<lparr>key_pid = p, key_time_bucket = tb\<rparr>
      in case buckets key of
           Some stats \<Rightarrow>
             (if is_wakeup
              then buckets(key \<mapsto> stats\<lparr>wakeups := wakeups stats + 1\<rparr>)
              else
                (let stats1 = stats\<lparr>context_switches := context_switches stats + 1\<rparr>;
                     stats2 = (if is_voluntary
                               then stats1\<lparr>voluntary_switches := voluntary_switches stats1 + 1\<rparr>
                               else stats1\<lparr>involuntary_switches :=
                                             involuntary_switches stats1 + 1\<rparr>)
                 in buckets(key \<mapsto>
                      stats2\<lparr>cpu_time_ns := cpu_time_ns stats2 + cpu_time,
                             total_timeslice_ns := total_timeslice_ns stats2 + cpu_time,
                             timeslice_count := timeslice_count stats2 + 1\<rparr>)))
         | None \<Rightarrow>
             (let new_stats =
                    \<lparr>time_bucket = tb,
                     pid = p,
                     comm = cm,
                     context_switches = (if is_wakeup then 0 else 1),
                     voluntary_switches = (if is_wakeup \<or> \<not> is_voluntary then 0 else 1),
                     involuntary_switches = (if is_wakeup \<or> is_voluntary then 0 else 1),
                     wakeups = (if is_wakeup then 1 else 0),
                     cpu_time_ns = cpu_time,
                     total_timeslice_ns = cpu_time,
                     timeslice_count = (if is_wakeup then 0 else 1)\<rparr>
              in bpf_map_update_elem sched_max_entries buckets key new_stats))"

text \<open>
  What \<^verbatim>\<open>trace_sched_switch\<close> reads: the clock, the fields of the tracepoint record
  (\<^verbatim>\<open>prev_state\<close> is a C \<^verbatim>\<open>long\<close>), and whether a ring-buffer reservation would
  succeed.
\<close>

record sched_switch_ctx =
  switch_ktime :: u64
  prev_pid :: u32
  prev_state :: u64
  prev_comm :: string
  next_pid :: u32
  next_comm :: string
  switch_reserve_ok :: bool

text \<open>\<^verbatim>\<open>bpf_probe_read_kernel_str(dst, TASK_COMM_LEN, src)\<close>: at most 15 characters and the NUL.\<close>

definition read_comm :: "string \<Rightarrow> string" where
  "read_comm src = take (TASK_COMM_LEN - 1) src"

text \<open>
  The first half of \<^verbatim>\<open>trace_sched_switch\<close>, for the task switched out
  (\<^verbatim>\<open>if (prev_pid > 0) { ... }\<close>).
\<close>

definition switch_prev :: "sched_switch_ctx \<Rightarrow> sched_state \<Rightarrow> sched_state" where
  "switch_prev ctx st =
     (let now = switch_ktime ctx;
          tb = now div NSEC_PER_SEC;
          prev_state32 = (ucast (prev_state ctx) :: u32);
          is_voluntary = (prev_state32 \<noteq> 0)
      in if prev_pid ctx > 0
         then
           (let st1 =
                  (case process_state_map st (prev_pid ctx) of
                     Some state \<Rightarrow>
                       (let st_emit =
                              (if last_bucket state \<noteq> 0 \<and> last_bucket state \<noteq> tb
                               then
                                 (let old_key = \<lparr>key_pid = prev_pid ctx,
                                                 key_time_bucket = last_bucket state\<rparr>
                                  in case bucket_aggregates st old_key of
                                       Some old_stats \<Rightarrow>
                                         st\<lparr>sched_events :=
                                               emit_bucket_stats (switch_reserve_ok ctx) old_stats
                                                 (sched_events st),
                                             bucket_aggregates :=
                                               bpf_map_delete_elem (bucket_aggregates st) old_key\<rparr>
                                     | None \<Rightarrow> st)
                               else st)
                        in st_emit\<lparr>process_state_map :=
                             (process_state_map st_emit)
                               (prev_pid ctx \<mapsto> state\<lparr>last_bucket := tb\<rparr>)\<rparr>)
                   | None \<Rightarrow>
                       (let new_state = \<lparr>last_switch_ts = 0, last_bucket = tb,
                                          state_comm = read_comm (prev_comm ctx)\<rparr>
                        in st\<lparr>process_state_map :=
                               bpf_map_update_elem sched_max_entries (process_state_map st)
                                 (prev_pid ctx) new_state\<rparr>));
                cpu_time =
                  (case process_state_map st (prev_pid ctx) of
                     Some state \<Rightarrow>
                       (if last_switch_ts state > 0 then now - last_switch_ts state else 0)
                   | None \<Rightarrow> 0)
            in st1\<lparr>bucket_aggregates :=
                     update_bucket_stats (prev_pid ctx) tb cpu_time is_voluntary False
                       (read_comm (prev_comm ctx)) (bucket_aggregates st1)\<rparr>)
         else st)"

text \<open>
  The second half, for the task switched in (\<^verbatim>\<open>if (next_pid > 0) { ... }\<close>).
\<close>

definition switch_next :: "sched_switch_ctx \<Rightarrow> sched_state \<Rightarrow> sched_state" where
  "switch_next ctx st =
     (let now = switch_ktime ctx;
          tb = now div NSEC_PER_SEC
      in if next_pid ctx > 0
         then
           (case process_state_map st (next_pid ctx) of
              Some next_state \<Rightarrow>
                st\<lparr>process_state_map :=
                      (process_state_map st)
                        (next_pid ctx \<mapsto> next_state\<lparr>last_switch_ts := now\<rparr>)\<rparr>
            | None \<Rightarrow>
                (let new_state = \<lparr>last_switch_ts = now, last_bucket = tb,
                                   state_comm = read_comm (next_comm ctx)\<rparr>
                 in st\<lparr>process_state_map :=
                        bpf_map_update_elem sched_max_entries (process_state_map st)
                          (next_pid ctx) new_state\<rparr>))
         else st)"

definition trace_sched_switch :: "sched_switch_ctx \<Rightarrow> sched_state \<Rightarrow> sched_state" where
  "trace_sched_switch ctx st = switch_next ctx (switch_prev ctx st)"

text \<open>What \<^verbatim>\<open>trace_sched_wakeup\<close> reads: the clock and \<^verbatim>\<open>struct sched_wakeup_args\<close>.\<close>

record sched_wakeup_args =
  wakeup_ktime :: u64
  wakeup_comm :: string
  wakeup_pid :: u32

definition trace_sched_wakeup :: "sched_wakeup_args \<Rightarrow> sched_state \<Rightarrow> sched_state" where
  "trace_sched_wakeup ctx st =
     (let now = wakeup_ktime ctx;
          tb = now div NSEC_PER_SEC
      in if wakeup_pid ctx = 0 then st
         else st\<lparr>bucket_aggregates :=
                  update_bucket_stats (wakeup_pid ctx) tb 0 False True (wakeup_comm ctx)
                    (bucket_aggregates st)\<rparr>)"

text \<open>
  The two tracepoints fire one after the other; a run of the tracer is the list of the
  firings applied in order to the state with empty maps.
\<close>

datatype sched_tracepoint = Sched_switch sched_switch_ctx | Sched_wakeup sched_wakeup_args

fun sched_fire :: "sched_state \<Rightarrow> sched_tracepoint \<Rightarrow> sched_state" where
  "sched_fire st (Sched_switch ctx) = trace_sched_switch ctx st"
| "sched_fire st (Sched_wakeup ctx) = trace_sched_wakeup ctx st"

definition sched_init :: sched_state where
  "sched_init = \<lparr>process_state_map = Map.empty, bucket_aggregates = Map.empty,
                  sched_events = []\<rparr>"

definition sched_run :: "sched_tracepoint list \<Rightarrow> sched_state" where
  "sched_run tps = foldl sched_fire sched_init tps"

fun tracepoint_ktime :: "sched_tracepoint \<Rightarrow> u64" where
  "tracepoint_ktime (Sched_switch ctx) = switch_ktime ctx"
| "tracepoint_ktime (Sched_wakeup ctx) = wakeup_ktime ctx"

section \<open>Invariants used in the proofs\<close>

text \<open>
  The bit scan of \<open>log2\<close>, before the iteration with index \<open>k - 1\<close>: the part of \<open>v\<close> still
  to be scanned is \<open>v\<close> shifted right by the slot found so far, it is not zero, and it
  fits in \<open>2 ^ k\<close> bits.
\<close>

definition scan_inv :: "u64 \<Rightarrow> nat \<Rightarrow> u32 \<times> u64 \<Rightarrow> bool" where
  "scan_inv v k st =
     (1 \<le> unat (snd st) \<and> unat (snd st) = unat v div 2 ^ unat (fst st)
      \<and> unat (snd st) < 2 ^ (2 ^ k) \<and> unat (fst st) + 2 ^ k \<le> 64)"

text \<open>
  The three equations and inequalities a \<^verbatim>\<open>struct bucket_stats\<close> is meant to satisfy.
\<close>

definition bucket_inv :: "bucket_stats \<Rightarrow> bool" where
  "bucket_inv b =
     (context_switches b = voluntary_switches b + involuntary_switches b
      \<and> unat (timeslice_count b) \<le> unat (context_switches b)
      \<and> cpu_time_ns b = total_timeslice_ns b)"

text \<open>
  The stronger statement that is preserved by every update: the 32-bit
  \<open>timeslice_count\<close> is the low half of the 64-bit \<open>context_switches\<close>.
\<close>

definition bucket_counted :: "bucket_stats \<Rightarrow> bool" where
  "bucket_counted b =
     (context_switches b = voluntary_switches b + involuntary_switches b
      \<and> timeslice_count b = ucast (context_switches b)
      \<and> cpu_time_ns b = total_timeslice_ns b)"

definition sched_counted :: "sched_state \<Rightarrow> bool" where
  "sched_counted st =
     ((\<forall>k b. bucket_aggregates st k = Some b \<longrightarrow> bucket_counted b)
      \<and> (\<forall>b \<in> set (sched_events st). bucket_counted b))"

text \<open>
  What holds of the scheduler tracer's state when no tracepoint so far fired in a window
  later than \<open>T\<close>: a stored bucket carries the pid and window of its key; no last-seen
  window is later than \<open>T\<close>; every submitted record belongs to a pid whose last-seen
  window is later than the record's; no two submitted records share pid and window.
\<close>

definition rollover_inv :: "u64 \<Rightarrow> sched_state \<Rightarrow> bool" where
  "rollover_inv T st =
     ((\<forall>k b. bucket_aggregates st k = Some b \<longrightarrow>
           pid b = key_pid k \<and> time_bucket b = key_time_bucket k)
      \<and> (\<forall>p s. process_state_map st p = Some s \<longrightarrow> last_bucket s \<le> T)
      \<and> (\<forall>b \<in> set (sched_events st).
            \<exists>s. process_state_map st (pid b) = Some s \<and> time_bucket b < last_bucket s)
      \<and> distinct (map (\<lambda>b. (pid b, time_bucket b)) (sched_events st)))"

chapter \<open>Verified properties\<close>

section \<open>The histogram slot is the clamped binary logarithm\<close>

lemma pow2_i_lt64: "i < 6 \<Longrightarrow> (2::nat) ^ i < 64"
proof -
  assume "i < 6"
  then have "(2::nat) ^ i < 2 ^ 6" by (simp only: power_strict_increasing_iff) 
  then show ?thesis by simp
qed

lemma unat_pow2_u64: "n < 64 \<Longrightarrow> unat ((2::u64) ^ n) = 2 ^ n"
proof -
  assume n: "n < 64"
  then have lt: "(2::nat) ^ n < 2 ^ 64" by (intro power_strict_increasing) simp_all
  have "unat ((2::u64) ^ n) = unat (of_nat (2 ^ n) :: u64)" by simp
  also have "\<dots> = 2 ^ n mod 2 ^ 64" by (simp only: unat_of_nat) simp
  also have "\<dots> = 2 ^ n" using lt by (simp only: mod_less)
  finally show ?thesis .
qed

lemma unat_u32_add_of_nat:
  fixes s :: u32
  assumes "unat s + k < 2 ^ 32"
  shows "unat (s + of_nat k) = unat s + k"
proof -
  have k: "k < 2 ^ 32" using assms by simp
  have "unat (s + of_nat k) = (unat s + unat (of_nat k :: u32)) mod 2 ^ 32"
    by (simp add: unat_word_ariths)
  also have "unat (of_nat k :: u32) = k" using k by (simp add: unat_of_nat)
  finally show ?thesis using assms by simp
qed

lemma log2_step_unat:
  assumes i: "i < 6"
  shows "log2_step i (slot, temp) =
     (if 2 ^ (2 ^ i) \<le> unat temp
      then (slot + of_nat (2 ^ i), drop_bit (2 ^ i) temp) else (slot, temp))"
proof -
  have lt: "(2::nat) ^ i < 64" using i by (rule pow2_i_lt64)
  have "unat (push_bit (2 ^ i) (1 :: u64)) = 2 ^ (2 ^ i)"
    using lt by (simp add: push_bit_of_1 unat_pow2_u64)
  then have "(push_bit (2 ^ i) (1 :: u64) \<le> temp) = (2 ^ (2 ^ i) \<le> unat temp)"
    by (simp add: word_le_nat_alt)
  then show ?thesis by (simp add: log2_step_def Let_def)
qed

lemma scan_inv_step:
  assumes i: "i < 6" and inv: "scan_inv v (Suc i) st"
  shows "scan_inv v i (log2_step i st)"
proof -
  obtain slot temp where st: "st = (slot, temp)" by (cases st)
  have lt: "(2::nat) ^ i < 64" using i by (rule pow2_i_lt64)
  from inv st have t1: "1 \<le> unat temp" and tv: "unat temp = unat v div 2 ^ unat slot"
    and tb: "unat temp < 2 ^ (2 ^ Suc i)" and sb: "unat slot + 2 ^ Suc i \<le> 64"
    by (simp_all add: scan_inv_def)
  show ?thesis
  proof (cases "2 ^ (2 ^ i) \<le> unat temp")
    case False
    then show ?thesis using t1 tv sb st i
      by (simp add: log2_step_unat scan_inv_def)
  next
    case True
    have s': "unat (slot + of_nat (2 ^ i)) = unat slot + 2 ^ i"
    proof -
      have "unat slot + 2 ^ i < 2 ^ 32" using sb by simp
      then show ?thesis by (rule unat_u32_add_of_nat)
    qed
    have t': "unat (drop_bit (2 ^ i) temp) = unat temp div 2 ^ (2 ^ i)"
      by (simp only: unat_drop_bit_eq) (simp only: drop_bit_eq_div)
    have a: "1 \<le> unat temp div 2 ^ (2 ^ i)"
      using True by (simp add: Suc_le_eq div_greater_zero_iff)
    have b: "unat temp div 2 ^ (2 ^ i) = unat v div 2 ^ (unat slot + 2 ^ i)"
      by (simp add: tv power_add div_mult2_eq)
    have c: "unat temp div 2 ^ (2 ^ i) < 2 ^ (2 ^ i)"
    proof -
      have "unat temp < 2 ^ (2 ^ i) * 2 ^ (2 ^ i)"
        using tb by (simp add: power_add[symmetric] mult_2)
      then show ?thesis by (simp add: less_mult_imp_div_less)
    qed
    have d: "unat slot + 2 ^ i + 2 ^ i \<le> 64" using sb by simp
    have res: "log2_step i st = (slot + of_nat (2 ^ i), drop_bit (2 ^ i) temp)"
      using True st i by (simp only: log2_step_unat if_True)
    show ?thesis
      unfolding res scan_inv_def fst_conv snd_conv s' t' using a b c d by simp
  qed
qed

lemma scan_inv_final:
  assumes "v \<noteq> 0"
  shows "scan_inv v 0 (foldl (\<lambda>st i. log2_step i st) (0, v) [5, 4, 3, 2, 1, 0])"
proof -
  have "unat v < 2 ^ 64" using unsigned_less[of v] by simp
  moreover have "1 \<le> unat v" using assms by (simp add: Suc_le_eq unat_gt_0)
  ultimately have i6: "scan_inv v 6 (0, v)" by (simp add: scan_inv_def)
  have i5: "scan_inv v 5 (log2_step 5 (0, v))"
    using scan_inv_step[of 5 v "(0, v)"] i6 by (simp add: eval_nat_numeral)
  have i4: "scan_inv v 4 (log2_step 4 (log2_step 5 (0, v)))"
    using scan_inv_step[of 4 v] i5 by (simp add: eval_nat_numeral)
  have i3: "scan_inv v 3 (log2_step 3 (log2_step 4 (log2_step 5 (0, v))))"
    using scan_inv_step[of 3 v] i4 by (simp add: eval_nat_numeral)
  have i2: "scan_inv v 2 (log2_step 2 (log2_step 3 (log2_step 4 (log2_step 5 (0, v)))))"
    using scan_inv_step[of 2 v] i3 by (simp add: eval_nat_numeral)
  have i1: "scan_inv v 1 (log2_step 1 (log2_step 2 (log2_step 3 (log2_step 4 (log2_step 5 (0, v))))))"
    using scan_inv_step[of 1 v] i2 by (simp add: eval_nat_numeral)
  have i0: "scan_inv v 0 (log2_step 0 (log2_step 1 (log2_step 2 (log2_step 3 (log2_step 4 (log2_step 5 (0, v)))))))"
    using scan_inv_step[of 0 v] i1 by simp
  then show ?thesis by simp
qed


lemma log2_scan_bounds:
  assumes "v \<noteq> 0"
  defines "s \<equiv> fst (foldl (\<lambda>st i. log2_step i st) (0, v) [5, 4, 3, 2, 1, 0])"
  shows "2 ^ unat s \<le> unat v" and "unat v < 2 ^ (unat s + 1)" and "unat s < 64"
proof -
  let ?st = "foldl (\<lambda>st i. log2_step i st) (0, v) [5, 4, 3, 2, 1, 0]"
  from scan_inv_final[OF assms(1)]
  have t1: "1 \<le> unat (snd ?st)" and tv: "unat (snd ?st) = unat v div 2 ^ unat s"
    and tb: "unat (snd ?st) < 2" and sb: "unat s + 1 \<le> 64"
    by (simp_all add: scan_inv_def s_def)
  from t1 tb tv have one: "unat v div 2 ^ unat s = 1" by simp
  have pos: "(0::nat) < 2 ^ unat s" by simp
  from one have "unat v div 2 ^ unat s \<ge> 1" by simp
  then show "2 ^ unat s \<le> unat v"
    using pos by (metis One_nat_def Suc_le_eq div_greater_zero_iff)
  from one have "unat v div 2 ^ unat s < 2" by simp
  then have "unat v < 2 * 2 ^ unat s"
    using pos by (simp add: div_less_iff_less_mult)
  then show "unat v < 2 ^ (unat s + 1)" by simp
  from sb show "unat s < 64" by simp
qed

lemma log2_unat:
  assumes "v \<noteq> 0"
  shows "unat (log2 v) = min 31 (nat \<lfloor>log 2 (real (unat v))\<rfloor>)"
proof -
  let ?s = "fst (foldl (\<lambda>st i. log2_step i st) (0, v) [5, 4, 3, 2, 1, 0])"
  have fl: "\<lfloor>log 2 (real (unat v))\<rfloor> = int (unat ?s)"
    using floor_log_nat_eq_if[of 2 "unat ?s" "unat v"] log2_scan_bounds(1,2)[OF assms]
    by simp
  have cl: "unat (if ?s \<ge> 32 then 31 else ?s) = min 31 (unat ?s)"
    by (simp add: word_le_nat_alt min_def)
  have "log2 v = (if ?s \<ge> 32 then 31 else ?s)"
    using assms by (simp add: log2_def MAX_SLOTS_def Let_def)
  then show ?thesis using fl cl by simp
qed

lemma log2_mono:
  assumes "v \<le> w"
  shows "log2 v \<le> log2 w"
proof (cases "v = 0")
  case True
  then show ?thesis by (simp add: log2_def)
next
  case False
  then have v0: "0 < unat v" by (simp add: unat_gt_0)
  from assms have le: "unat v \<le> unat w" by (simp add: word_le_nat_alt)
  then have w0: "w \<noteq> 0" using v0 by auto
  have w0': "0 < unat w" using v0 le by simp
  have "log 2 (real (unat v)) \<le> log 2 (real (unat w))"
  proof (subst log_le_cancel_iff)
    show "(1::real) < 2" by simp
    show "0 < real (unat v)" using v0 by (simp only: of_nat_0_less_iff)
    show "0 < real (unat w)" using w0' by (simp only: of_nat_0_less_iff)
    show "real (unat v) \<le> real (unat w)" using le by (simp only: of_nat_le_iff)
  qed
  then have "nat \<lfloor>log 2 (real (unat v))\<rfloor> \<le> nat \<lfloor>log 2 (real (unat w))\<rfloor>"
    by (intro nat_mono floor_mono)
  then have "unat (log2 v) \<le> unat (log2 w)"
    by (simp add: log2_unat[OF False] log2_unat[OF w0] min_le_iff_disj)
  then show ?thesis by (simp add: word_le_nat_alt)
qed

lemma log2_1500: "log2 1500 = 10"
  by (simp add: log2_def log2_step_def MAX_SLOTS_def word_le_nat_alt)

text \<open>
  Claim C2. For every latency \<open>v\<close> in microseconds, the slot \<open>log2 v\<close> is the integer part
  of the binary logarithm of \<open>v\<close>, cut off at 31, and 0 for \<open>v = 0\<close>; hence the slot never
  decreases when the latency grows, it is at most 31, and a latency of 1500 falls in slot 10.
\<close>

theorem classify_is_clamped_floor_log2:
  fixes v w :: u64
  shows "unat (log2 v) = (if v = 0 then 0 else min 31 (nat \<lfloor>log 2 (real (unat v))\<rfloor>))
    \<and> (v \<le> w \<longrightarrow> log2 v \<le> log2 w)
    \<and> log2 v \<le> 31
    \<and> log2 0 = 0
    \<and> log2 1500 = 10"
proof -
  have a: "unat (log2 v) = (if v = 0 then 0 else min 31 (nat \<lfloor>log 2 (real (unat v))\<rfloor>))"
    using log2_unat[of v] by (simp add: log2_def)
  have "unat (log2 v) \<le> 31" unfolding a by simp
  then have b: "log2 v \<le> 31" by (simp add: word_le_nat_alt)
  have c: "log2 (0::u64) = 0" by (simp add: log2_def)
  show ?thesis using a b c log2_mono[of v w] log2_1500 by blast
qed

theorem classify_is_clamped_floor_log2_witness:
  "(1024::u64) \<le> 5000000000 \<and> log2 1024 = 10 \<and> log2 5000000000 = 31
     \<and> log2 1024 \<le> log2 5000000000"
  using classify_is_clamped_floor_log2[of 1024 5000000000]
  by (simp add: log2_def log2_step_def MAX_SLOTS_def)

section \<open>Entry and exit of a system call\<close>

lemma bpf_map_update_elem_stored:
  "k \<in> dom m \<or> card (dom m) < n \<Longrightarrow> bpf_map_update_elem n m k v = m(k \<mapsto> v)"
  by (simp add: bpf_map_update_elem_def)

lemma syscall_exit_lookup_None:
  "syscall_start st (ucast (exit_pid_tgid cx)) = None \<Longrightarrow> trace_syscall_exit cx st = st"
  by (simp add: trace_syscall_exit_def syscall_exit_lookup_def)

lemma syscall_exit_deletes:
  "syscall_start (trace_syscall_exit cx st) (ucast (exit_pid_tgid cx)) = None"
  by (cases "syscall_start st (ucast (exit_pid_tgid cx))")
     (simp_all add: trace_syscall_exit_def syscall_exit_lookup_def bpf_map_delete_elem_def Let_def)

lemma syscall_exit_events:
  assumes "syscall_start st (ucast (exit_pid_tgid cx)) = Some e"
  shows "syscall_events (trace_syscall_exit cx st) =
           (if exit_ktime cx - entry_timestamp e < LATENCY_THRESHOLD_NS \<or> \<not> exit_reserve_ok cx
            then syscall_events st
            else syscall_events st @
              [\<lparr>ev_timestamp = exit_ktime cx,
                ev_pid = ucast (drop_bit 32 (exit_pid_tgid cx)),
                ev_tid = ucast (exit_pid_tgid cx),
                ev_syscall_nr = ucast (exit_id cx),
                ev_latency_ns = exit_ktime cx - entry_timestamp e,
                ev_ret_value = exit_ret cx,
                ev_arg0 = entry_arg0 e,
                ev_cpu = exit_cpu cx,
                ev_uid = ucast (exit_uid_gid cx AND 0xFFFFFFFF),
                ev_is_error = (if sint (exit_ret cx) < 0 then 1 else 0),
                ev_comm = exit_comm cx\<rparr>])"
  using assms by (simp add: trace_syscall_exit_def syscall_exit_lookup_def Let_def)

lemma syscall_exit_map:
  assumes "syscall_start st (ucast (exit_pid_tgid cx)) = Some e"
  shows "syscall_start (trace_syscall_exit cx st) =
           bpf_map_delete_elem (syscall_start st) (ucast (exit_pid_tgid cx))"
  using assms by (simp add: trace_syscall_exit_def syscall_exit_lookup_def Let_def)

text \<open>
  Claim C1, as stated, fails: the exit does not always yield what it found. Thread 7 enters
  at time 0 with first argument 42 and exits 5 ms later: the lookup finds the record and
  the latency, but the latency is below \<^verbatim>\<open>LATENCY_THRESHOLD_NS\<close> and nothing is emitted.
  Thread 9 exits 20 ms after its entry while \<^verbatim>\<open>bpf_ringbuf_reserve\<close> returns NULL: again
  the record is found and nothing is emitted.
\<close>

theorem fast_or_dropped_exit_yields_nothing_counterexample:
  "syscall_exit_lookup
      \<lparr>exit_pid_tgid = 7, exit_ktime = 5000000, exit_id = 1, exit_ret = 0, exit_cpu = 0,
        exit_uid_gid = 0, exit_comm = ''sh'', exit_reserve_ok = True\<rparr>
      (trace_syscall_enter \<lparr>enter_pid_tgid = 7, enter_ktime = 0, enter_args0 = 42\<rparr> syscall_init)
     = Some (\<lparr>entry_timestamp = 0, entry_arg0 = 42\<rparr>, 5000000)
   \<and> syscall_events (trace_syscall_exit
      \<lparr>exit_pid_tgid = 7, exit_ktime = 5000000, exit_id = 1, exit_ret = 0, exit_cpu = 0,
        exit_uid_gid = 0, exit_comm = ''sh'', exit_reserve_ok = True\<rparr>
      (trace_syscall_enter \<lparr>enter_pid_tgid = 7, enter_ktime = 0, enter_args0 = 42\<rparr> syscall_init))
     = []
   \<and> syscall_exit_lookup
      \<lparr>exit_pid_tgid = 9, exit_ktime = 20000100, exit_id = 3, exit_ret = 0, exit_cpu = 1,
        exit_uid_gid = 0, exit_comm = ''cat'', exit_reserve_ok = False\<rparr>
      (trace_syscall_enter \<lparr>enter_pid_tgid = 9, enter_ktime = 100, enter_args0 = 5\<rparr> syscall_init)
     = Some (\<lparr>entry_timestamp = 100, entry_arg0 = 5\<rparr>, 20000000)
   \<and> syscall_events (trace_syscall_exit
      \<lparr>exit_pid_tgid = 9, exit_ktime = 20000100, exit_id = 3, exit_ret = 0, exit_cpu = 1,
        exit_uid_gid = 0, exit_comm = ''cat'', exit_reserve_ok = False\<rparr>
      (trace_syscall_enter \<lparr>enter_pid_tgid = 9, enter_ktime = 100, enter_args0 = 5\<rparr> syscall_init))
     = []"
  by (simp add: syscall_exit_lookup_def trace_syscall_exit_def LATENCY_THRESHOLD_NS_def
        trace_syscall_enter_def syscall_init_def bpf_map_update_elem_def
        syscall_start_max_entries_def)

text \<open>
  Claim C1, amended. When \<^verbatim>\<open>trace_syscall_enter\<close> for thread \<open>k\<close> stores its record \<open>m\<close>
  (the key is present, so the record is overwritten, or the map has room), the map
  afterwards is the old one with \<open>k\<close> bound to \<open>m\<close>. A following \<^verbatim>\<open>trace_syscall_exit\<close> of
  that thread finds \<open>m\<close>, computes the latency as exit time minus stored entry time (a
  non-negative 64-bit value, the plain difference when the clock did not run backwards)
  and removes the record, leaving every other key as it was. If the latency is at least
  the threshold and the ring-buffer reservation succeeds, it appends exactly one record,
  which carries the stored argument of \<open>m\<close> and that latency; otherwise it appends
  nothing. A second exit of the thread with no entry in between finds nothing and leaves
  the whole state, map and ring buffer, as it was.
\<close>

theorem correlation_round_trip:
  fixes ce :: sys_enter_ctx and cx cx2 :: sys_exit_ctx and st :: syscall_state
  defines "k \<equiv> (ucast (enter_pid_tgid ce) :: u32)"
  defines "m \<equiv> \<lparr>entry_timestamp = enter_ktime ce, entry_arg0 = enter_args0 ce\<rparr>"
  defines "latency \<equiv> exit_ktime cx - enter_ktime ce"
  defines "st1 \<equiv> trace_syscall_enter ce st"
  defines "st2 \<equiv> trace_syscall_exit cx st1"
  defines "st3 \<equiv> trace_syscall_exit cx2 st2"
  assumes stored: "k \<in> dom (syscall_start st) \<or> card (dom (syscall_start st)) < syscall_start_max_entries"
    and same_thread: "ucast (exit_pid_tgid cx) = k"
    and same_thread2: "ucast (exit_pid_tgid cx2) = k"
  shows "syscall_start st1 = (syscall_start st)(k \<mapsto> m)
       \<and> syscall_events st1 = syscall_events st
       \<and> syscall_exit_lookup cx st1 = Some (m, latency)
       \<and> 0 \<le> uint latency
       \<and> (enter_ktime ce \<le> exit_ktime cx \<longrightarrow>
            unat latency = unat (exit_ktime cx) - unat (enter_ktime ce))
       \<and> syscall_start st2 = (syscall_start st)(k := None)
       \<and> (LATENCY_THRESHOLD_NS \<le> latency \<and> exit_reserve_ok cx \<longrightarrow>
            syscall_events st2 = syscall_events st @
              [\<lparr>ev_timestamp = exit_ktime cx,
                ev_pid = ucast (drop_bit 32 (exit_pid_tgid cx)),
                ev_tid = k,
                ev_syscall_nr = ucast (exit_id cx),
                ev_latency_ns = latency,
                ev_ret_value = exit_ret cx,
                ev_arg0 = enter_args0 ce,
                ev_cpu = exit_cpu cx,
                ev_uid = ucast (exit_uid_gid cx AND 0xFFFFFFFF),
                ev_is_error = (if sint (exit_ret cx) < 0 then 1 else 0),
                ev_comm = exit_comm cx\<rparr>])
       \<and> (latency < LATENCY_THRESHOLD_NS \<or> \<not> exit_reserve_ok cx \<longrightarrow>
            syscall_events st2 = syscall_events st)
       \<and> syscall_exit_lookup cx2 st2 = None
       \<and> st3 = st2"
proof -
  have a: "syscall_start st1 = (syscall_start st)(k \<mapsto> m)"
    using stored by (simp add: st1_def trace_syscall_enter_def Let_def k_def m_def
        bpf_map_update_elem_stored)
  have ev1: "syscall_events st1 = syscall_events st"
    by (simp add: st1_def trace_syscall_enter_def Let_def)
  have a': "syscall_start st1 (ucast (exit_pid_tgid cx)) = Some m"
    using a same_thread by simp
  have b: "syscall_exit_lookup cx st1 = Some (m, latency)"
    using a' by (simp add: syscall_exit_lookup_def Let_def m_def latency_def)
  have c: "enter_ktime ce \<le> exit_ktime cx \<longrightarrow>
            unat latency = unat (exit_ktime cx) - unat (enter_ktime ce)"
    by (simp add: unat_sub latency_def)
  have d: "syscall_start st2 = (syscall_start st)(k := None)"
    unfolding st2_def syscall_exit_map[OF a'] using same_thread
    by (simp add: a bpf_map_delete_elem_def)
  have evs: "syscall_events st2 =
           (if latency < LATENCY_THRESHOLD_NS \<or> \<not> exit_reserve_ok cx
            then syscall_events st
            else syscall_events st @
              [\<lparr>ev_timestamp = exit_ktime cx,
                ev_pid = ucast (drop_bit 32 (exit_pid_tgid cx)),
                ev_tid = k,
                ev_syscall_nr = ucast (exit_id cx),
                ev_latency_ns = latency,
                ev_ret_value = exit_ret cx,
                ev_arg0 = enter_args0 ce,
                ev_cpu = exit_cpu cx,
                ev_uid = ucast (exit_uid_gid cx AND 0xFFFFFFFF),
                ev_is_error = (if sint (exit_ret cx) < 0 then 1 else 0),
                ev_comm = exit_comm cx\<rparr>])"
    unfolding st2_def syscall_exit_events[OF a'] ev1
    by (simp add: m_def latency_def same_thread)
  have e1: "LATENCY_THRESHOLD_NS \<le> latency \<and> exit_reserve_ok cx \<longrightarrow>
            syscall_events st2 = syscall_events st @
              [\<lparr>ev_timestamp = exit_ktime cx,
                ev_pid = ucast (drop_bit 32 (exit_pid_tgid cx)),
                ev_tid = k,
                ev_syscall_nr = ucast (exit_id cx),
                ev_latency_ns = latency,
                ev_ret_value = exit_ret cx,
                ev_arg0 = enter_args0 ce,
                ev_cpu = exit_cpu cx,
                ev_uid = ucast (exit_uid_gid cx AND 0xFFFFFFFF),
                ev_is_error = (if sint (exit_ret cx) < 0 then 1 else 0),
                ev_comm = exit_comm cx\<rparr>]"
    by (simp add: evs not_less[symmetric])
  have e2: "latency < LATENCY_THRESHOLD_NS \<or> \<not> exit_reserve_ok cx \<longrightarrow>
            syscall_events st2 = syscall_events st"
    by (simp add: evs)
  have d0: "syscall_start st2 k = None" by (simp add: d)
  have f: "syscall_exit_lookup cx2 st2 = None"
    using d0 same_thread2 by (simp add: syscall_exit_lookup_def)
  have g: "st3 = st2"
    unfolding st3_def using d0 same_thread2 by (simp add: syscall_exit_lookup_None)
  have z: "0 \<le> uint latency" by simp
  show ?thesis using a ev1 b z c d e1 e2 f g by (intro conjI)
qed

theorem correlation_round_trip_witness:
  "(ucast (7 :: u64) \<in> dom (syscall_start syscall_init)
      \<or> card (dom (syscall_start syscall_init)) < syscall_start_max_entries)
   \<and> LATENCY_THRESHOLD_NS \<le> 11000000 - 0
   \<and> syscall_events
        (trace_syscall_exit
          \<lparr>exit_pid_tgid = 7, exit_ktime = 11000000, exit_id = 1, exit_ret = 0, exit_cpu = 0,
            exit_uid_gid = 0, exit_comm = ''sh'', exit_reserve_ok = True\<rparr>
          (trace_syscall_enter \<lparr>enter_pid_tgid = 7, enter_ktime = 0, enter_args0 = 42\<rparr>
             syscall_init))
      = [\<lparr>ev_timestamp = 11000000, ev_pid = 0, ev_tid = 7, ev_syscall_nr = 1,
           ev_latency_ns = 11000000, ev_ret_value = 0, ev_arg0 = 42, ev_cpu = 0, ev_uid = 0,
           ev_is_error = 0, ev_comm = ''sh''\<rparr>]
   \<and> syscall_start
        (trace_syscall_exit
          \<lparr>exit_pid_tgid = 7, exit_ktime = 11000000, exit_id = 1, exit_ret = 0, exit_cpu = 0,
            exit_uid_gid = 0, exit_comm = ''sh'', exit_reserve_ok = True\<rparr>
          (trace_syscall_enter \<lparr>enter_pid_tgid = 7, enter_ktime = 0, enter_args0 = 42\<rparr>
             syscall_init)) 7
      = None
   \<and> trace_syscall_exit
      \<lparr>exit_pid_tgid = 7, exit_ktime = 12000000, exit_id = 1, exit_ret = 0, exit_cpu = 0,
        exit_uid_gid = 0, exit_comm = ''sh'', exit_reserve_ok = True\<rparr>
      (trace_syscall_exit
        \<lparr>exit_pid_tgid = 7, exit_ktime = 11000000, exit_id = 1, exit_ret = 0, exit_cpu = 0,
          exit_uid_gid = 0, exit_comm = ''sh'', exit_reserve_ok = True\<rparr>
        (trace_syscall_enter \<lparr>enter_pid_tgid = 7, enter_ktime = 0, enter_args0 = 42\<rparr>
           syscall_init))
    = trace_syscall_exit
        \<lparr>exit_pid_tgid = 7, exit_ktime = 11000000, exit_id = 1, exit_ret = 0, exit_cpu = 0,
          exit_uid_gid = 0, exit_comm = ''sh'', exit_reserve_ok = True\<rparr>
        (trace_syscall_enter \<lparr>enter_pid_tgid = 7, enter_ktime = 0, enter_args0 = 42\<rparr>
           syscall_init)"
proof -
  have room: "ucast (7 :: u64) \<in> dom (syscall_start syscall_init)
      \<or> card (dom (syscall_start syscall_init)) < syscall_start_max_entries"
    by (simp add: syscall_init_def syscall_start_max_entries_def)
  have thr: "LATENCY_THRESHOLD_NS \<le> 11000000 - 0"
    by (simp add: LATENCY_THRESHOLD_NS_def)
  show ?thesis
    using room thr correlation_round_trip[of
      "\<lparr>enter_pid_tgid = 7, enter_ktime = 0, enter_args0 = 42\<rparr>"
      syscall_init
      "\<lparr>exit_pid_tgid = 7, exit_ktime = 11000000, exit_id = 1, exit_ret = 0, exit_cpu = 0,
        exit_uid_gid = 0, exit_comm = ''sh'', exit_reserve_ok = True\<rparr>"
      "\<lparr>exit_pid_tgid = 7, exit_ktime = 12000000, exit_id = 1, exit_ret = 0, exit_cpu = 0,
        exit_uid_gid = 0, exit_comm = ''sh'', exit_reserve_ok = True\<rparr>"]
    by (simp add: syscall_init_def syscall_start_max_entries_def)
qed

text \<open>
  Claim C6, as stated, fails: an exit whose entry is present and whose latency of 11 ms is
  above the threshold emits no record when \<^verbatim>\<open>bpf_ringbuf_reserve\<close> returns NULL.
\<close>

theorem slow_exit_without_ring_space_counterexample:
  "syscall_exit_lookup
      \<lparr>exit_pid_tgid = 7, exit_ktime = 11000000, exit_id = 1, exit_ret = 0, exit_cpu = 0,
        exit_uid_gid = 0, exit_comm = ''sh'', exit_reserve_ok = False\<rparr>
      (trace_syscall_enter \<lparr>enter_pid_tgid = 7, enter_ktime = 0, enter_args0 = 42\<rparr> syscall_init)
     = Some (\<lparr>entry_timestamp = 0, entry_arg0 = 42\<rparr>, 11000000)
   \<and> LATENCY_THRESHOLD_NS < 11000000
   \<and> syscall_events (trace_syscall_exit
      \<lparr>exit_pid_tgid = 7, exit_ktime = 11000000, exit_id = 1, exit_ret = 0, exit_cpu = 0,
        exit_uid_gid = 0, exit_comm = ''sh'', exit_reserve_ok = False\<rparr>
      (trace_syscall_enter \<lparr>enter_pid_tgid = 7, enter_ktime = 0, enter_args0 = 42\<rparr> syscall_init))
     = []"
  by (simp add: syscall_exit_lookup_def trace_syscall_exit_def LATENCY_THRESHOLD_NS_def
        trace_syscall_enter_def syscall_init_def bpf_map_update_elem_def
        syscall_start_max_entries_def)

text \<open>
  Claim C6, amended. For every exit whose entry record is present: below the threshold no
  record is emitted; at or above the threshold, when the ring-buffer reservation succeeds,
  exactly one record is appended, carrying the stored first argument and the latency, with
  \<open>is_error\<close> 1 if the return value is negative and 0 otherwise; when the reservation fails
  no record is emitted; on each of these paths the entry record is deleted and no other
  key of the map changes.
\<close>

theorem exit_filter_and_delete:
  fixes cx :: sys_exit_ctx and st :: syscall_state and e :: syscall_entry_data
  defines "tid \<equiv> (ucast (exit_pid_tgid cx) :: u32)"
  defines "latency \<equiv> exit_ktime cx - entry_timestamp e"
  defines "st' \<equiv> trace_syscall_exit cx st"
  assumes present: "syscall_start st tid = Some e"
  shows "(latency < LATENCY_THRESHOLD_NS \<longrightarrow> syscall_events st' = syscall_events st)
       \<and> (LATENCY_THRESHOLD_NS \<le> latency \<and> exit_reserve_ok cx \<longrightarrow>
            (\<exists>ev. syscall_events st' = syscall_events st @ [ev]
                \<and> ev_arg0 ev = entry_arg0 e
                \<and> ev_latency_ns ev = latency
                \<and> ev_ret_value ev = exit_ret cx
                \<and> ev_is_error ev = (if sint (exit_ret cx) < 0 then 1 else 0)))
       \<and> (LATENCY_THRESHOLD_NS \<le> latency \<and> \<not> exit_reserve_ok cx \<longrightarrow>
            syscall_events st' = syscall_events st)
       \<and> syscall_start st' = (syscall_start st)(tid := None)"
proof -
  have p: "syscall_start st (ucast (exit_pid_tgid cx)) = Some e"
    using present by (simp add: tid_def)
  have ev: "syscall_events st' =
           (if latency < LATENCY_THRESHOLD_NS \<or> \<not> exit_reserve_ok cx
            then syscall_events st
            else syscall_events st @
              [\<lparr>ev_timestamp = exit_ktime cx,
                ev_pid = ucast (drop_bit 32 (exit_pid_tgid cx)),
                ev_tid = ucast (exit_pid_tgid cx),
                ev_syscall_nr = ucast (exit_id cx),
                ev_latency_ns = latency,
                ev_ret_value = exit_ret cx,
                ev_arg0 = entry_arg0 e,
                ev_cpu = exit_cpu cx,
                ev_uid = ucast (exit_uid_gid cx AND 0xFFFFFFFF),
                ev_is_error = (if sint (exit_ret cx) < 0 then 1 else 0),
                ev_comm = exit_comm cx\<rparr>])"
    unfolding st'_def latency_def by (rule syscall_exit_events[OF p])
  have a: "latency < LATENCY_THRESHOLD_NS \<longrightarrow> syscall_events st' = syscall_events st"
    by (simp add: ev)
  have b: "LATENCY_THRESHOLD_NS \<le> latency \<and> exit_reserve_ok cx \<longrightarrow>
            (\<exists>ev. syscall_events st' = syscall_events st @ [ev]
                \<and> ev_arg0 ev = entry_arg0 e
                \<and> ev_latency_ns ev = latency
                \<and> ev_ret_value ev = exit_ret cx
                \<and> ev_is_error ev = (if sint (exit_ret cx) < 0 then 1 else 0))"
    by (simp add: ev not_less[symmetric])
  have c: "LATENCY_THRESHOLD_NS \<le> latency \<and> \<not> exit_reserve_ok cx \<longrightarrow>
            syscall_events st' = syscall_events st"
    by (simp add: ev)
  have d: "syscall_start st' = (syscall_start st)(tid := None)"
    unfolding st'_def syscall_exit_map[OF p] by (simp add: bpf_map_delete_elem_def tid_def)
  show ?thesis using a b c d by blast
qed

theorem exit_filter_and_delete_witness:
  "(\<exists>ev. syscall_events (trace_syscall_exit
        \<lparr>exit_pid_tgid = 7, exit_ktime = 11000000, exit_id = 1, exit_ret = - 2, exit_cpu = 0,
          exit_uid_gid = 0, exit_comm = ''sh'', exit_reserve_ok = True\<rparr>
        (trace_syscall_enter \<lparr>enter_pid_tgid = 7, enter_ktime = 0, enter_args0 = 42\<rparr> syscall_init))
       = [ev] \<and> ev_arg0 ev = 42 \<and> ev_latency_ns ev = 11000000 \<and> ev_is_error ev = 1)
   \<and> syscall_start (trace_syscall_exit
        \<lparr>exit_pid_tgid = 7, exit_ktime = 11000000, exit_id = 1, exit_ret = - 2, exit_cpu = 0,
          exit_uid_gid = 0, exit_comm = ''sh'', exit_reserve_ok = True\<rparr>
        (trace_syscall_enter \<lparr>enter_pid_tgid = 7, enter_ktime = 0, enter_args0 = 42\<rparr> syscall_init)) 7
       = None"
  using exit_filter_and_delete[of
        "(trace_syscall_enter \<lparr>enter_pid_tgid = 7, enter_ktime = 0, enter_args0 = 42\<rparr> syscall_init)"
        "\<lparr>exit_pid_tgid = 7, exit_ktime = 11000000, exit_id = 1, exit_ret = - 2, exit_cpu = 0,
          exit_uid_gid = 0, exit_comm = ''sh'', exit_reserve_ok = True\<rparr>"
        "\<lparr>entry_timestamp = 0, entry_arg0 = 42\<rparr>"]
  by (auto simp add: LATENCY_THRESHOLD_NS_def trace_syscall_enter_def syscall_init_def
        bpf_map_update_elem_def syscall_start_max_entries_def)

section \<open>Completion of a block request\<close>

lemma log2_le_31: "log2 v \<le> 31"
proof -
  let ?s = "fst (foldl (\<lambda>st i. log2_step i st) (0, v) [5, 4, 3, 2, 1, 0])"
  show ?thesis
  proof (cases "v = 0")
    case True then show ?thesis by (simp add: log2_def)
  next
    case False
    then have "log2 v = (if ?s \<ge> 32 then 31 else ?s)"
      by (simp add: log2_def MAX_SLOTS_def Let_def)
    then show ?thesis by (simp add: word_le_nat_alt)
  qed
qed

lemma log2_slot_in_range: "unat (log2 v) < MAX_SLOTS"
  using log2_le_31[of v] by (simp add: MAX_SLOTS_def word_le_nat_alt)

lemma sector_bytes_exact:
  fixes n :: u32
  assumes "unat n < 2 ^ 23"
  shows "unat (ucast (n * 512) :: u64) = unat n * 512"
proof -
  have "unat n * 512 < 2 ^ 32" using assms by simp
  then have "unat (n * 512) = unat n * 512"
    by (simp add: unat_word_ariths)
  moreover have "unat (ucast (n * 512) :: u64) = unat (n * 512)"
  proof -
    have "unat (n * 512) < 2 ^ 32" using unsigned_less[of "n * 512"] by simp
    then have "unat (n * 512) < 2 ^ 64" by simp
    then show ?thesis by (simp add: unsigned_ucast_eq take_bit_nat_eq_self)
  qed
  ultimately show ?thesis by simp
qed

lemma is_read_head:
  "(case rwbs of [] \<Rightarrow> False | op # _ \<Rightarrow> op = CHR ''R'') = (take 1 rwbs = ''R'')"
  by (cases rwbs) simp_all

text \<open>
  Claim C9. A completed request whose start record is found, on a CPU that has its copy of
  the statistics, is counted in exactly one direction, chosen by the first character of
  \<^verbatim>\<open>rwbs\<close> alone: if it is \<open>R\<close> the read histogram slot \<open>log2 latency_us\<close>, the read count
  and the read bytes grow and the write side stays as it was; for every other first
  character the write side grows and the read side stays. The slot is below 32. The bytes
  added are the 32-bit product \<^verbatim>\<open>nr_sector * 512\<close> widened to 64 bits, which is the
  product of the numbers for every \<open>nr_sector\<close> below \<open>2 ^ 23\<close> (the kernel derives
  \<open>nr_sector\<close> from a 32-bit byte count, so it is always below). The start record is removed.
\<close>

theorem block_completion_counted_in_one_direction:
  fixes ctx :: block_rq_complete_ctx and st :: io_state and start :: io_start
  defines "key \<equiv> \<lparr>dev = complete_dev ctx, sector = complete_sector ctx\<rparr>"
  defines "slot \<equiv> unat (log2 ((complete_ktime ctx - io_timestamp start) div 1000))"
  defines "bytes \<equiv> (ucast (complete_nr_sector ctx * 512) :: u64)"
  defines "old \<equiv> io_stats_map st ! complete_cpu ctx"
  defines "st' \<equiv> trace_block_rq_complete ctx st"
  defines "new \<equiv> io_stats_map st' ! complete_cpu ctx"
  assumes found: "io_start_map st key = Some start"
    and cpu: "complete_cpu ctx < length (io_stats_map st)"
    and rlen: "length (slots (read_hist old)) = MAX_SLOTS"
    and wlen: "length (slots (write_hist old)) = MAX_SLOTS"
  shows "(take 1 (complete_rwbs ctx) = ''R'' \<longrightarrow>
            slots (read_hist new) = (slots (read_hist old))[slot := slots (read_hist old) ! slot + 1]
          \<and> slots (read_hist new) ! slot = slots (read_hist old) ! slot + 1
          \<and> read_count new = read_count old + 1
          \<and> read_bytes new = read_bytes old + bytes
          \<and> write_hist new = write_hist old
          \<and> write_count new = write_count old
          \<and> write_bytes new = write_bytes old)
       \<and> (take 1 (complete_rwbs ctx) \<noteq> ''R'' \<longrightarrow>
            slots (write_hist new) = (slots (write_hist old))[slot := slots (write_hist old) ! slot + 1]
          \<and> slots (write_hist new) ! slot = slots (write_hist old) ! slot + 1
          \<and> write_count new = write_count old + 1
          \<and> write_bytes new = write_bytes old + bytes
          \<and> read_hist new = read_hist old
          \<and> read_count new = read_count old
          \<and> read_bytes new = read_bytes old)
       \<and> slot < MAX_SLOTS
       \<and> (unat (complete_nr_sector ctx) < 2 ^ 23 \<longrightarrow>
            unat bytes = unat (complete_nr_sector ctx) * 512)
       \<and> io_start_map st' key = None"
proof -
  let ?is_read = "take 1 (complete_rwbs ctx) = ''R''"
  let ?sl = "log2 ((complete_ktime ctx - io_timestamp start) div 1000)"
  have lk: "percpu_lookup (io_stats_map st) (complete_cpu ctx) = Some old"
    using cpu by (simp add: percpu_lookup_def old_def)
  have new_eq: "new = (if ?is_read
                   then old\<lparr>read_hist := hist_add1 (read_hist old) ?sl,
                            read_count := read_count old + 1,
                            read_bytes := read_bytes old + bytes\<rparr>
                   else old\<lparr>write_hist := hist_add1 (write_hist old) ?sl,
                            write_count := write_count old + 1,
                            write_bytes := write_bytes old + bytes\<rparr>)"
    using found lk cpu
    unfolding new_def st'_def trace_block_rq_complete_def key_def[symmetric] bytes_def[symmetric]
    by (simp add: Let_def is_read_head)
  have sl: "slot < MAX_SLOTS" unfolding slot_def by (rule log2_slot_in_range)
  have r: "?is_read \<longrightarrow>
            slots (read_hist new) = (slots (read_hist old))[slot := slots (read_hist old) ! slot + 1]
          \<and> slots (read_hist new) ! slot = slots (read_hist old) ! slot + 1
          \<and> read_count new = read_count old + 1
          \<and> read_bytes new = read_bytes old + bytes
          \<and> write_hist new = write_hist old
          \<and> write_count new = write_count old
          \<and> write_bytes new = write_bytes old"
    using sl rlen by (simp add: new_eq hist_add1_def slot_def)
  have w: "\<not> ?is_read \<longrightarrow>
            slots (write_hist new) = (slots (write_hist old))[slot := slots (write_hist old) ! slot + 1]
          \<and> slots (write_hist new) ! slot = slots (write_hist old) ! slot + 1
          \<and> write_count new = write_count old + 1
          \<and> write_bytes new = write_bytes old + bytes
          \<and> read_hist new = read_hist old
          \<and> read_count new = read_count old
          \<and> read_bytes new = read_bytes old"
    using sl wlen by (simp add: new_eq hist_add1_def slot_def)
  have b: "unat (complete_nr_sector ctx) < 2 ^ 23 \<longrightarrow>
            unat bytes = unat (complete_nr_sector ctx) * 512"
    unfolding bytes_def using sector_bytes_exact by blast
  have d: "io_start_map st' key = None"
    using found lk
    unfolding st'_def trace_block_rq_complete_def key_def[symmetric]
    by (simp add: Let_def bpf_map_delete_elem_def)
  show ?thesis using r w sl b d by blast
qed


theorem block_completion_counted_in_one_direction_witness:
  "read_count (io_stats_map (trace_block_rq_complete
       \<lparr>complete_dev = 8, complete_sector = 2048, complete_nr_sector = 8,
         complete_rwbs = ''R'', complete_ktime = 1500000, complete_cpu = 0\<rparr>
       (trace_block_rq_issue \<lparr>issue_dev = 8, issue_sector = 2048, issue_ktime = 0\<rparr> (io_init 2))) ! 0) = 1
   \<and> read_bytes (io_stats_map (trace_block_rq_complete
       \<lparr>complete_dev = 8, complete_sector = 2048, complete_nr_sector = 8,
         complete_rwbs = ''R'', complete_ktime = 1500000, complete_cpu = 0\<rparr>
       (trace_block_rq_issue \<lparr>issue_dev = 8, issue_sector = 2048, issue_ktime = 0\<rparr> (io_init 2))) ! 0) = 4096
   \<and> slots (read_hist (io_stats_map (trace_block_rq_complete
       \<lparr>complete_dev = 8, complete_sector = 2048, complete_nr_sector = 8,
         complete_rwbs = ''R'', complete_ktime = 1500000, complete_cpu = 0\<rparr>
       (trace_block_rq_issue \<lparr>issue_dev = 8, issue_sector = 2048, issue_ktime = 0\<rparr> (io_init 2))) ! 0)) ! 10 = 1
   \<and> write_count (io_stats_map (trace_block_rq_complete
       \<lparr>complete_dev = 8, complete_sector = 2048, complete_nr_sector = 8,
         complete_rwbs = ''R'', complete_ktime = 1500000, complete_cpu = 0\<rparr>
       (trace_block_rq_issue \<lparr>issue_dev = 8, issue_sector = 2048, issue_ktime = 0\<rparr> (io_init 2))) ! 0) = 0"
proof -
  let ?st = "trace_block_rq_issue \<lparr>issue_dev = 8, issue_sector = 2048, issue_ktime = 0\<rparr> (io_init 2)"
  let ?ctx = "\<lparr>complete_dev = 8, complete_sector = 2048, complete_nr_sector = 8,
         complete_rwbs = ''R'', complete_ktime = 1500000, complete_cpu = 0\<rparr>"
  have found: "io_start_map ?st \<lparr>dev = complete_dev ?ctx, sector = complete_sector ?ctx\<rparr>
                 = Some \<lparr>io_timestamp = 0\<rparr>"
    by (simp add: trace_block_rq_issue_def io_init_def bpf_map_update_elem_def
                  io_start_max_entries_def)
  have sm: "io_stats_map ?st = [zero_stats, zero_stats]"
    by (simp add: trace_block_rq_issue_def io_init_def numeral_2_eq_2)
  have cpu: "complete_cpu ?ctx < length (io_stats_map ?st)"
    by (simp add: sm)
  have rlen: "length (slots (read_hist (io_stats_map ?st ! complete_cpu ?ctx))) = MAX_SLOTS"
    by (simp add: sm zero_stats_def zero_hist_def)
  have wlen: "length (slots (write_hist (io_stats_map ?st ! complete_cpu ?ctx))) = MAX_SLOTS"
    by (simp add: sm zero_stats_def zero_hist_def)
  have sl: "log2 (1500000 div 1000) = 10"
    by (simp add: log2_def log2_step_def MAX_SLOTS_def word_le_nat_alt)
  show ?thesis
    using block_completion_counted_in_one_direction[OF found cpu rlen wlen] sl
    by (simp add: sm zero_stats_def zero_hist_def MAX_SLOTS_def)
qed

section \<open>The percentile walk\<close>

lemma upt_32: "[0..<MAX_SLOTS] = [0,1,2,3,4,5,6,7,8,9,10,11,12,13,14,15,16,17,18,19,20,21,22,23,24,25,26,27,28,29,30,31]"
  by (simp add: MAX_SLOTS_def upt_rec)

lemma bucket_midpoint_10: "bucket_midpoint 10 = 1536"
  by (simp add: bucket_midpoint_def)

lemma bucket_midpoint_0: "bucket_midpoint 0 = 1"
  by (simp add: bucket_midpoint_def)

lemma target_half: "double_to_ull (1 / 2) = Some 0"
  by (simp add: double_to_ull_def)

text \<open>
  Claim C3, evaluated on the code. A histogram whose single event (\<open>N = 1\<close>) lies in slot 10,
  asked for the percentile \<open>p = 50\<close>: the target is the integer part of \<open>0.5\<close>, which is 0,
  the empty slot 0 already has a cumulative count of at least 0, and
  \<^verbatim>\<open>calculate_percentile\<close> returns 1, the midpoint of slot 0, where the claim asks for 1536,
  the midpoint of slot 10.
\<close>

theorem single_event_percentile_code:
  "calculate_percentile \<lparr>slots = (replicate MAX_SLOTS 0)[10 := 1]\<rparr> 1 50 = Some 1
   \<and> bucket_midpoint 10 = 1536"
  by (simp add: calculate_percentile_def target_half upt_32 bucket_midpoint_0 bucket_midpoint_10)

lemma unat_cumulative_step:
  fixes c :: u64 and x :: u32
  assumes "unat c + unat x < 2 ^ 64"
  shows "unat (c + ucast x) = unat c + unat x"
proof -
  have x: "unat (ucast x :: u64) = unat x"
  proof -
    have "unat x < 2 ^ 32" using unsigned_less[of x] by simp
    then have "unat x < 2 ^ 64" by simp
    then show ?thesis by (simp add: unsigned_ucast_eq take_bit_nat_eq_self)
  qed
  show ?thesis using assms by (simp add: unat_word_ariths x)
qed

lemma percentile_walk_returns:
  assumes "idx \<noteq> []"
    and "unat c + (\<Sum>i\<leftarrow>idx. unat (slots h ! i)) < 2 ^ 64"
    and "unat target \<le> unat c + (\<Sum>i\<leftarrow>idx. unat (slots h ! i))"
  shows "\<exists>i \<in> set idx. percentile_walk h target c idx = Some (bucket_midpoint i)"
  using assms
proof (induction idx arbitrary: c)
  case Nil
  then show ?case by simp
next
  case (Cons i idx)
  let ?c' = "c + ucast (slots h ! i)"
  have c': "unat ?c' = unat c + unat (slots h ! i)"
    using Cons.prems(2) by (intro unat_cumulative_step) simp
  show ?case
  proof (cases "target \<le> ?c'")
    case True
    then show ?thesis by simp
  next
    case False
    then have lt: "unat ?c' < unat target" by (simp add: word_le_nat_alt)
    have ne: "idx \<noteq> []"
    proof
      assume "idx = []"
      then show False using Cons.prems(3) lt c' by simp
    qed
    have "\<exists>j \<in> set idx. percentile_walk h target ?c' idx = Some (bucket_midpoint j)"
      using Cons.prems(2,3) by (intro Cons.IH[OF ne]) (simp_all add: c')
    then show ?thesis using False by auto
  qed
qed

lemma slot_sum_bound:
  "(\<Sum>i\<leftarrow>idx. unat ((xs :: u32 list) ! i)) \<le> length idx * 2 ^ 32"
proof (induction idx)
  case Nil then show ?case by simp
next
  case (Cons i idx)
  have "unat (xs ! i) < 2 ^ 32" using unsigned_less[of "xs ! i"] by simp
  then show ?case using Cons by simp
qed

lemma double_to_ull_fraction:
  fixes m :: nat
  assumes "0 \<le> p" "p \<le> 100" "m < 2 ^ 64"
  shows "\<exists>target. double_to_ull (real m * p / 100) = Some target \<and> unat target \<le> m"
proof -
  let ?x = "real m * p / 100"
  have x0: "0 \<le> ?x" using assms by simp
  have "real m * p \<le> real m * 100"
    using assms by (intro mult_left_mono) simp_all
  then have xn: "?x \<le> real m" by simp
  have "real m < real (2 ^ 64)" using assms(3) by (simp only: of_nat_less_iff)
  then have x64: "?x < 2 ^ 64" using xn by simp
  have "\<lfloor>?x\<rfloor> \<le> int m" using xn by (simp add: floor_le_iff) 
  then have fl: "nat \<lfloor>?x\<rfloor> \<le> m" by simp
  then have "nat \<lfloor>?x\<rfloor> < 2 ^ 64" using assms(3) by simp
  then have "unat (of_nat (nat \<lfloor>?x\<rfloor>) :: u64) = nat \<lfloor>?x\<rfloor>"
    by (simp add: unat_of_nat)
  moreover have "- 1 < ?x" using x0 by linarith
  ultimately show ?thesis using x64 fl by (simp add: double_to_ull_def)
qed

lemma percentile_target_le_total:
  assumes "0 \<le> p" "p \<le> 100"
  shows "\<exists>target. double_to_ull (real (unat (n :: u64)) * p / 100) = Some target
            \<and> unat target \<le> unat n"
proof -
  have "unat n < 2 ^ 64" using unsigned_less[of n] by simp
  then show ?thesis by (rule double_to_ull_fraction[OF assms])
qed

text \<open>
  Claim C10. For a positive total, a percentile \<open>p\<close> between 0 and 100, and slot counters
  whose sum is at least the total, the conversion of the target is defined and the walk
  over the 32 slots returns from inside the loop, with the midpoint of some slot \<open>i < 32\<close>;
  so \<^verbatim>\<open>calculate_percentile\<close> returns that value and never reaches the \<^verbatim>\<open>return\<close> after
  the loop.
\<close>

theorem percentile_walk_returns_in_loop:
  assumes total_pos: "0 < total_n"
    and p_lo: "0 \<le> p" and p_hi: "p \<le> 100"
    and enough: "unat total_n \<le> (\<Sum>i\<leftarrow>[0..<MAX_SLOTS]. unat (slots h ! i))"
  shows "\<exists>target i. double_to_ull (real (unat total_n) * p / 100) = Some target
           \<and> i < MAX_SLOTS
           \<and> percentile_walk h target 0 [0..<MAX_SLOTS] = Some (bucket_midpoint i)
           \<and> calculate_percentile h total_n p = Some (bucket_midpoint i)"
proof -
  obtain target where t: "double_to_ull (real (unat total_n) * p / 100) = Some target"
    and tle: "unat target \<le> unat total_n"
    using percentile_target_le_total[OF p_lo p_hi] by blast
  have ne: "[0..<MAX_SLOTS] \<noteq> []" by (simp add: MAX_SLOTS_def)
  have "(\<Sum>i\<leftarrow>[0..<MAX_SLOTS]. unat (slots h ! i)) \<le> length [0..<MAX_SLOTS] * 2 ^ 32"
    by (rule slot_sum_bound)
  then have b: "unat (0::u64) + (\<Sum>i\<leftarrow>[0..<MAX_SLOTS]. unat (slots h ! i)) < 2 ^ 64"
    by (simp add: MAX_SLOTS_def)
  have c: "unat target \<le> unat (0::u64) + (\<Sum>i\<leftarrow>[0..<MAX_SLOTS]. unat (slots h ! i))"
    using tle enough by simp
  obtain i where i: "i \<in> set [0..<MAX_SLOTS]"
    and w: "percentile_walk h target 0 [0..<MAX_SLOTS] = Some (bucket_midpoint i)"
    using percentile_walk_returns[OF ne b c] by blast
  have nz: "total_n \<noteq> 0" using total_pos by auto
  have "calculate_percentile h total_n p = Some (bucket_midpoint i)"
    using nz t w by (simp add: calculate_percentile_def)
  then show ?thesis using t i w by auto
qed

theorem percentile_walk_returns_in_loop_witness:
  "(0 :: u64) < 10 \<and> (0 :: real) \<le> 50 \<and> (50 :: real) \<le> 100
   \<and> unat (10 :: u64)
        \<le> (\<Sum>i\<leftarrow>[0..<MAX_SLOTS]. unat (slots \<lparr>slots = (replicate MAX_SLOTS 0)[10 := 10]\<rparr> ! i))
   \<and> calculate_percentile \<lparr>slots = (replicate MAX_SLOTS 0)[10 := 10]\<rparr> 10 50 = Some 1536"
proof -
  let ?h = "\<lparr>slots = (replicate MAX_SLOTS 0)[10 := 10]\<rparr>"
  have e: "unat (10::u64) \<le> (\<Sum>i\<leftarrow>[0..<MAX_SLOTS]. unat (slots ?h ! i))"
    by (simp add: upt_32) (simp add: MAX_SLOTS_def)
  have w: "percentile_walk ?h 5 0 [0..<MAX_SLOTS] = Some 1536"
    by (simp add: upt_32 bucket_midpoint_10) (simp add: MAX_SLOTS_def bucket_midpoint_10)
  have t: "double_to_ull (real (unat (10::u64)) * 50 / 100) = Some 5"
    by (simp add: double_to_ull_def)
  have c: "calculate_percentile ?h 10 50 = Some 1536"
    using percentile_walk_returns_in_loop[of 10 50 ?h, OF _ _ _ e] t w
    by (auto simp add: bucket_midpoint_10)
  show ?thesis using e c by simp
qed

subsection \<open>Histograms with all events in one slot\<close>

text \<open>
  What \<^verbatim>\<open>calculate_percentile\<close> returns for the histograms of C3: the midpoint of the
  slot \<open>i\<close> that holds the \<open>n\<close> events whenever the target, the integer part of
  \<open>n * p / 100\<close>, is at least 1; and 1, the midpoint of slot 0, whenever the target is 0,
  wherever the events are. The midpoint of slot \<open>i\<close> is \<open>(2 ^ i + 2 ^ (i + 1)) / 2\<close>,
  with 0 as the lower bound of slot 0.
\<close>

lemma percentile_walk_skip_empty:
  assumes "\<forall>j \<in> set js. slots h ! j = 0" and "c < target"
  shows "percentile_walk h target c (js @ rest) = percentile_walk h target c rest"
  using assms by (induction js) (simp_all add: not_le[symmetric])

lemma upt_split_at:
  assumes "i < n"
  shows "[0..<n] = [0..<i] @ i # [Suc i..<n]"
proof -
  have "[0..<i + (n - i)] = [0..<i] @ [i..<i + (n - i)]"
    by (rule upt_add_eq_append) simp
  then have "[0..<n] = [0..<i] @ [i..<n]" using assms by simp
  then show ?thesis using assms by (simp add: upt_conv_Cons)
qed

lemma double_to_ull_target:
  fixes m :: nat
  assumes "0 \<le> p" "p \<le> 100" "m < 2 ^ 64"
  shows "\<exists>target. double_to_ull (real m * p / 100) = Some target
            \<and> unat target \<le> m
            \<and> (1 \<le> real m * p / 100 \<longrightarrow> 0 < target)
            \<and> (real m * p / 100 < 1 \<longrightarrow> target = 0)"
proof -
  let ?x = "real m * p / 100"
  let ?t = "of_nat (nat \<lfloor>?x\<rfloor>) :: u64"
  have x0: "0 \<le> ?x" using assms by simp
  have "real m * p \<le> real m * 100"
    using assms by (intro mult_left_mono) simp_all
  then have xn: "?x \<le> real m" by simp
  have "real m < real (2 ^ 64)" using assms(3) by (simp only: of_nat_less_iff)
  then have x64: "?x < 2 ^ 64" using xn by simp
  have "\<lfloor>?x\<rfloor> \<le> int m" using xn by (simp add: floor_le_iff)
  then have fl: "nat \<lfloor>?x\<rfloor> \<le> m" by simp
  then have "nat \<lfloor>?x\<rfloor> < 2 ^ 64" using assms(3) by simp
  then have u: "unat ?t = nat \<lfloor>?x\<rfloor>" by (simp add: unat_of_nat)
  have d: "double_to_ull ?x = Some ?t" using x0 x64 by (simp add: double_to_ull_def)
  have pos: "1 \<le> ?x \<longrightarrow> 0 < ?t"
  proof
    assume "1 \<le> ?x"
    then have "1 \<le> \<lfloor>?x\<rfloor>" by (simp add: le_floor_iff)
    then have "0 < unat ?t" unfolding u by simp
    then show "0 < ?t" by (simp add: word_less_nat_alt)
  qed
  have zero: "?x < 1 \<longrightarrow> ?t = 0"
  proof
    assume "?x < 1"
    then have "\<lfloor>?x\<rfloor> = 0" using x0 by (simp add: floor_eq_iff)
    then show "?t = 0" by simp
  qed
  show ?thesis using d u fl pos zero by auto
qed

lemma single_slot_nth:
  assumes "i < MAX_SLOTS"
  shows "((replicate MAX_SLOTS 0)[i := n]) ! i = (n :: u32)"
    and "j < MAX_SLOTS \<Longrightarrow> j \<noteq> i \<Longrightarrow> ((replicate MAX_SLOTS 0)[i := n]) ! j = (0 :: u32)"
  using assms by simp_all

lemma percentile_single_slot_positive_target:
  assumes i: "i < MAX_SLOTS" and h: "slots h = (replicate MAX_SLOTS 0)[i := n]"
    and p: "0 \<le> p" "p \<le> 100" and t0: "1 \<le> real (unat n) * p / 100"
  shows "calculate_percentile h (ucast n) p = Some (bucket_midpoint i)"
proof -
  let ?N = "ucast n :: u64"
  have un: "unat ?N = unat n"
  proof -
    have "unat n < 2 ^ 32" using unsigned_less[of n] by simp
    then have "unat n < 2 ^ 64" by simp
    then show ?thesis by (simp add: unsigned_ucast_eq take_bit_nat_eq_self)
  qed
  have t: "1 \<le> real (unat ?N) * p / 100" using t0 by (simp only: un)
  have "unat ?N < 2 ^ 64" using unsigned_less[of ?N] by simp
  from double_to_ull_target[OF p this] t
  obtain target where tg: "double_to_ull (real (unat ?N) * p / 100) = Some target"
    and tle: "unat target \<le> unat ?N" and tpos: "0 < target"
    by blast
  have nz: "?N \<noteq> 0"
  proof
    assume "?N = 0"
    then show False using t by simp
  qed
  have skip: "\<forall>j \<in> set [0..<i]. slots h ! j = 0"
    using i by (simp add: h)
  have at_i: "slots h ! i = n" using i by (simp add: h)
  have reach: "target \<le> 0 + ucast (slots h ! i)"
    using tle by (simp add: at_i word_le_nat_alt)
  have "percentile_walk h target 0 [0..<MAX_SLOTS]
          = percentile_walk h target 0 (i # [Suc i..<MAX_SLOTS])"
    unfolding upt_split_at[OF i] by (rule percentile_walk_skip_empty[OF skip tpos])
  also have "\<dots> = Some (bucket_midpoint i)" using reach by simp
  finally have w: "percentile_walk h target 0 [0..<MAX_SLOTS] = Some (bucket_midpoint i)" .
  show ?thesis
    unfolding calculate_percentile_def using nz by (simp only: if_False tg option.case w)
qed

lemma percentile_zero_target:
  assumes nz: "total_n \<noteq> 0" and p: "0 \<le> p" "p \<le> 100"
    and t: "real (unat total_n) * p / 100 < 1"
  shows "calculate_percentile h total_n p = Some 1"
proof -
  have "unat total_n < 2 ^ 64" using unsigned_less[of total_n] by simp
  from double_to_ull_target[OF p this] t
  have tg: "double_to_ull (real (unat total_n) * p / 100) = Some 0" by auto
  have w: "percentile_walk h 0 0 [0..<MAX_SLOTS] = Some (bucket_midpoint 0)"
    by (simp add: upt_32)
  show ?thesis
    unfolding calculate_percentile_def using nz
    by (simp only: if_False tg option.case w bucket_midpoint_0)
qed

lemma bucket_midpoint_eq:
  assumes "i < MAX_SLOTS"
  shows "bucket_midpoint i = (if i = 0 then 0 + 2 ^ 1 else 2 ^ i + 2 ^ (i + 1)) / 2"
proof -
  have i32: "i < 32" using assms by (simp add: MAX_SLOTS_def)
  have a: "unat (push_bit i 1 :: u64) = 2 ^ i"
    using i32 by (simp add: push_bit_of_1 unat_pow2_u64)
  have b: "unat (push_bit (i + 1) 1 :: u64) = 2 ^ (i + 1)"
    using i32 unat_pow2_u64[of "i + 1"] by (simp add: push_bit_of_1)
  have "(2::nat) ^ i < 2 ^ 32" using i32 by (intro power_strict_increasing) simp_all
  then have "(2::nat) ^ i + 2 ^ (i + 1) < 2 ^ 64" by simp
  then have c: "unat ((push_bit i 1 :: u64) + push_bit (i + 1) 1) = 2 ^ i + 2 ^ (i + 1)"
    using a b by (simp only: unat_word_ariths a b) simp
  show ?thesis
  proof (cases "i = 0")
    case True
    then show ?thesis by (simp add: bucket_midpoint_def)
  next
    case False
    have "bucket_midpoint i = real (unat ((push_bit i 1 :: u64) + push_bit (i + 1) 1)) / 2"
      using False by (simp add: bucket_midpoint_def Let_def)
    then show ?thesis using False by (simp only: c) simp
  qed
qed

section \<open>Merging the per-CPU statistics\<close>

lemma merge_hist_commute: "merge_hist a b = merge_hist b a"
  by (simp add: merge_hist_def add.commute)

lemma merge_hist_nth: "i < MAX_SLOTS \<Longrightarrow> slots (merge_hist a b) ! i = slots a ! i + slots b ! i"
  by (simp add: merge_hist_def)

lemma merge_hist_length: "length (slots (merge_hist a b)) = MAX_SLOTS"
  by (simp add: merge_hist_def)

lemma merge_hist_assoc: "merge_hist (merge_hist a b) c = merge_hist a (merge_hist b c)"
proof -
  have "slots (merge_hist (merge_hist a b) c) = slots (merge_hist a (merge_hist b c))"
    by (rule nth_equalityI) (simp_all add: merge_hist_length merge_hist_nth add.assoc)
  then show ?thesis by simp
qed

lemma merge_cpu_commute: "merge_cpu a b = merge_cpu b a"
  by (simp add: merge_cpu_def merge_hist_commute[of "read_hist a"]
        merge_hist_commute[of "write_hist a"] add.commute)

lemma merge_cpu_assoc: "merge_cpu (merge_cpu a b) c = merge_cpu a (merge_cpu b c)"
  by (simp add: merge_cpu_def merge_hist_assoc add.assoc)

lemma merge_cpu_swap: "merge_cpu (merge_cpu a x) y = merge_cpu (merge_cpu a y) x"
  by (metis merge_cpu_assoc merge_cpu_commute)

lemma foldl_merge_cpu_permute:
  assumes "mset xs = mset ys"
  shows "foldl merge_cpu a xs = foldl merge_cpu a ys"
proof -
  have "fold (\<lambda>x m. merge_cpu m x) xs = fold (\<lambda>x m. merge_cpu m x) ys"
    using assms by (intro fold_multiset_equiv) (auto simp: fun_eq_iff merge_cpu_swap)
  then show ?thesis by (simp add: foldl_conv_fold)
qed

lemma foldl_merge_cpu_read_slot:
  "i < MAX_SLOTS \<Longrightarrow>
   slots (read_hist (foldl merge_cpu a xs)) ! i
     = slots (read_hist a) ! i + (\<Sum>s\<leftarrow>xs. slots (read_hist s) ! i)"
  by (induction xs arbitrary: a) (simp_all add: merge_cpu_def merge_hist_nth add.assoc)

lemma foldl_merge_cpu_write_slot:
  "i < MAX_SLOTS \<Longrightarrow>
   slots (write_hist (foldl merge_cpu a xs)) ! i
     = slots (write_hist a) ! i + (\<Sum>s\<leftarrow>xs. slots (write_hist s) ! i)"
  by (induction xs arbitrary: a) (simp_all add: merge_cpu_def merge_hist_nth add.assoc)

lemma foldl_merge_cpu_totals:
  "read_count (foldl merge_cpu a xs) = read_count a + (\<Sum>s\<leftarrow>xs. read_count s)"
  "write_count (foldl merge_cpu a xs) = write_count a + (\<Sum>s\<leftarrow>xs. write_count s)"
  "read_bytes (foldl merge_cpu a xs) = read_bytes a + (\<Sum>s\<leftarrow>xs. read_bytes s)"
  "write_bytes (foldl merge_cpu a xs) = write_bytes a + (\<Sum>s\<leftarrow>xs. write_bytes s)"
  by (induction xs arbitrary: a) (simp_all add: merge_cpu_def add.assoc)

lemma zero_hist_nth: "i < MAX_SLOTS \<Longrightarrow> slots zero_hist ! i = 0"
  by (simp add: zero_hist_def)

lemma three_shards_merged_slot:
  "slots (read_hist (merge_stats True (Some
      [zero_stats\<lparr>read_hist := \<lparr>slots = (replicate MAX_SLOTS 0)[10 := 3]\<rparr>, read_count := 3\<rparr>,
       zero_stats\<lparr>read_hist := \<lparr>slots = (replicate MAX_SLOTS 0)[10 := 5]\<rparr>, read_count := 5\<rparr>,
       zero_stats\<lparr>read_hist := \<lparr>slots = (replicate MAX_SLOTS 0)[10 := 2]\<rparr>, read_count := 2\<rparr>])
      u)) =  (replicate MAX_SLOTS 0)[10 := 10]"
  by (simp add: merge_stats_def merge_cpu_def merge_hist_def zero_stats_def zero_hist_def upt_32)
     (simp add: MAX_SLOTS_def eval_nat_numeral)

lemma three_shards_merged_count:
  "read_count (merge_stats True (Some
      [zero_stats\<lparr>read_hist := \<lparr>slots = (replicate MAX_SLOTS 0)[10 := 3]\<rparr>, read_count := 3\<rparr>,
       zero_stats\<lparr>read_hist := \<lparr>slots = (replicate MAX_SLOTS 0)[10 := 5]\<rparr>, read_count := 5\<rparr>,
       zero_stats\<lparr>read_hist := \<lparr>slots = (replicate MAX_SLOTS 0)[10 := 2]\<rparr>, read_count := 2\<rparr>])
      u) = 10"
  by (simp add: merge_stats_def merge_cpu_def zero_stats_def)

lemma percentile_10_in_slot_10:
  "calculate_percentile \<lparr>slots = (replicate MAX_SLOTS 0)[10 := 10]\<rparr> 10 50 = Some 1536"
proof -
  have t: "double_to_ull 5 = Some 5"
    by (simp add: double_to_ull_def)
  have w: "percentile_walk \<lparr>slots = (replicate MAX_SLOTS 0)[10 := 10]\<rparr> 5 0 [0..<MAX_SLOTS] = Some 1536"
    by (simp add: upt_32 bucket_midpoint_10) (simp add: MAX_SLOTS_def bucket_midpoint_10)
  show ?thesis by (simp add: calculate_percentile_def t w)
qed

lemma foldl_merge_cpu_lengths:
  "length (slots (read_hist a)) = MAX_SLOTS \<Longrightarrow>
     length (slots (read_hist (foldl merge_cpu a xs))) = MAX_SLOTS"
  "length (slots (write_hist a)) = MAX_SLOTS \<Longrightarrow>
     length (slots (write_hist (foldl merge_cpu a xs))) = MAX_SLOTS"
  by (induction xs arbitrary: a) (simp_all add: merge_cpu_def merge_hist_length)

lemma zero_stats_simps:
  "read_hist zero_stats = zero_hist" "write_hist zero_stats = zero_hist"
  "read_count zero_stats = 0" "write_count zero_stats = 0"
  "read_bytes zero_stats = 0" "write_bytes zero_stats = 0"
  "length (slots zero_hist) = MAX_SLOTS"
  by (simp_all add: zero_stats_def zero_hist_def)

text \<open>
  Claim C5. The merge does not depend on the order of the shards: two lists of per-CPU
  statistics with the same elements merge to the same aggregate; the step
  \<^verbatim>\<open>merged += cpu_stats[cpu]\<close> is commutative and associative; each of the 32 slots of
  both merged histograms and each of the four totals is the sum, in the counter's machine
  arithmetic, of the shards' values. Three shards with 3, 5 and 2 reads in slot 10 merge
  to 10 in slot 10, and the 50th percentile of the merged histogram with total 10 is
  1536.
\<close>

theorem merge_is_order_independent_sum:
  fixes xs ys :: "io_stats list" and a b c u u' :: io_stats
  defines "M \<equiv> merge_stats True (Some xs) u"
  shows "(mset xs = mset ys \<longrightarrow> merge_stats True (Some ys) u' = M)
       \<and> merge_cpu a b = merge_cpu b a
       \<and> merge_cpu (merge_cpu a b) c = merge_cpu a (merge_cpu b c)
       \<and> (\<forall>i<MAX_SLOTS.
             slots (read_hist M) ! i = (\<Sum>s\<leftarrow>xs. slots (read_hist s) ! i)
           \<and> slots (write_hist M) ! i = (\<Sum>s\<leftarrow>xs. slots (write_hist s) ! i))
       \<and> length (slots (read_hist M)) = MAX_SLOTS
       \<and> length (slots (write_hist M)) = MAX_SLOTS
       \<and> read_count M = (\<Sum>s\<leftarrow>xs. read_count s)
       \<and> write_count M = (\<Sum>s\<leftarrow>xs. write_count s)
       \<and> read_bytes M = (\<Sum>s\<leftarrow>xs. read_bytes s)
       \<and> write_bytes M = (\<Sum>s\<leftarrow>xs. write_bytes s)
       \<and> slots (read_hist (merge_stats True (Some
            [zero_stats\<lparr>read_hist := \<lparr>slots = (replicate MAX_SLOTS 0)[10 := 3]\<rparr>, read_count := 3\<rparr>,
             zero_stats\<lparr>read_hist := \<lparr>slots = (replicate MAX_SLOTS 0)[10 := 5]\<rparr>, read_count := 5\<rparr>,
             zero_stats\<lparr>read_hist := \<lparr>slots = (replicate MAX_SLOTS 0)[10 := 2]\<rparr>, read_count := 2\<rparr>])
            u)) ! 10 = 10
       \<and> calculate_percentile
            (read_hist (merge_stats True (Some
              [zero_stats\<lparr>read_hist := \<lparr>slots = (replicate MAX_SLOTS 0)[10 := 3]\<rparr>, read_count := 3\<rparr>,
               zero_stats\<lparr>read_hist := \<lparr>slots = (replicate MAX_SLOTS 0)[10 := 5]\<rparr>, read_count := 5\<rparr>,
               zero_stats\<lparr>read_hist := \<lparr>slots = (replicate MAX_SLOTS 0)[10 := 2]\<rparr>, read_count := 2\<rparr>])
              u))
            (read_count (merge_stats True (Some
              [zero_stats\<lparr>read_hist := \<lparr>slots = (replicate MAX_SLOTS 0)[10 := 3]\<rparr>, read_count := 3\<rparr>,
               zero_stats\<lparr>read_hist := \<lparr>slots = (replicate MAX_SLOTS 0)[10 := 5]\<rparr>, read_count := 5\<rparr>,
               zero_stats\<lparr>read_hist := \<lparr>slots = (replicate MAX_SLOTS 0)[10 := 2]\<rparr>, read_count := 2\<rparr>])
              u))
            50 = Some 1536"
proof -
  have M: "M = foldl merge_cpu zero_stats xs" by (simp add: M_def merge_stats_def)
  have p: "mset xs = mset ys \<longrightarrow> merge_stats True (Some ys) u' = M"
    using foldl_merge_cpu_permute[of ys xs zero_stats] by (auto simp add: M merge_stats_def)
  have s: "\<forall>i<MAX_SLOTS.
             slots (read_hist M) ! i = (\<Sum>s\<leftarrow>xs. slots (read_hist s) ! i)
           \<and> slots (write_hist M) ! i = (\<Sum>s\<leftarrow>xs. slots (write_hist s) ! i)"
    by (simp add: M foldl_merge_cpu_read_slot foldl_merge_cpu_write_slot zero_stats_simps
          zero_hist_nth)
  have l: "length (slots (read_hist M)) = MAX_SLOTS" "length (slots (write_hist M)) = MAX_SLOTS"
    by (simp_all add: M foldl_merge_cpu_lengths zero_stats_simps)
  have t: "read_count M = (\<Sum>s\<leftarrow>xs. read_count s)" "write_count M = (\<Sum>s\<leftarrow>xs. write_count s)"
    "read_bytes M = (\<Sum>s\<leftarrow>xs. read_bytes s)" "write_bytes M = (\<Sum>s\<leftarrow>xs. write_bytes s)"
    by (simp_all add: M foldl_merge_cpu_totals zero_stats_simps)
  have e1: "slots (read_hist (merge_stats True (Some
            [zero_stats\<lparr>read_hist := \<lparr>slots = (replicate MAX_SLOTS 0)[10 := 3]\<rparr>, read_count := 3\<rparr>,
             zero_stats\<lparr>read_hist := \<lparr>slots = (replicate MAX_SLOTS 0)[10 := 5]\<rparr>, read_count := 5\<rparr>,
             zero_stats\<lparr>read_hist := \<lparr>slots = (replicate MAX_SLOTS 0)[10 := 2]\<rparr>, read_count := 2\<rparr>])
            u)) ! 10 = 10"
    unfolding three_shards_merged_slot by (simp add: MAX_SLOTS_def)
  have e2: "calculate_percentile
            (read_hist (merge_stats True (Some
              [zero_stats\<lparr>read_hist := \<lparr>slots = (replicate MAX_SLOTS 0)[10 := 3]\<rparr>, read_count := 3\<rparr>,
               zero_stats\<lparr>read_hist := \<lparr>slots = (replicate MAX_SLOTS 0)[10 := 5]\<rparr>, read_count := 5\<rparr>,
               zero_stats\<lparr>read_hist := \<lparr>slots = (replicate MAX_SLOTS 0)[10 := 2]\<rparr>, read_count := 2\<rparr>])
              u))
            (read_count (merge_stats True (Some
              [zero_stats\<lparr>read_hist := \<lparr>slots = (replicate MAX_SLOTS 0)[10 := 3]\<rparr>, read_count := 3\<rparr>,
               zero_stats\<lparr>read_hist := \<lparr>slots = (replicate MAX_SLOTS 0)[10 := 5]\<rparr>, read_count := 5\<rparr>,
               zero_stats\<lparr>read_hist := \<lparr>slots = (replicate MAX_SLOTS 0)[10 := 2]\<rparr>, read_count := 2\<rparr>])
              u))
            50 = Some 1536"
  proof -
    have "read_hist (merge_stats True (Some
              [zero_stats\<lparr>read_hist := \<lparr>slots = (replicate MAX_SLOTS 0)[10 := 3]\<rparr>, read_count := 3\<rparr>,
               zero_stats\<lparr>read_hist := \<lparr>slots = (replicate MAX_SLOTS 0)[10 := 5]\<rparr>, read_count := 5\<rparr>,
               zero_stats\<lparr>read_hist := \<lparr>slots = (replicate MAX_SLOTS 0)[10 := 2]\<rparr>, read_count := 2\<rparr>])
              u) = \<lparr>slots = (replicate MAX_SLOTS 0)[10 := 10]\<rparr>"
      using three_shards_merged_slot[of u] by simp
    then show ?thesis
      unfolding three_shards_merged_count by (simp only: percentile_10_in_slot_10)
  qed
  show ?thesis
    using p merge_cpu_commute[of a b] merge_cpu_assoc[of a b c] s l t e1 e2
    by (intro conjI)
qed

theorem merge_is_order_independent_sum_witness:
  "mset [zero_stats\<lparr>read_count := 3\<rparr>, zero_stats\<lparr>read_count := 5\<rparr>]
     = mset [zero_stats\<lparr>read_count := 5\<rparr>, zero_stats\<lparr>read_count := 3\<rparr>]
   \<and> merge_stats True (Some [zero_stats\<lparr>read_count := 5\<rparr>, zero_stats\<lparr>read_count := 3\<rparr>]) zero_stats
     = merge_stats True (Some [zero_stats\<lparr>read_count := 3\<rparr>, zero_stats\<lparr>read_count := 5\<rparr>]) zero_stats
   \<and> read_count (merge_stats True
         (Some [zero_stats\<lparr>read_count := 3\<rparr>, zero_stats\<lparr>read_count := 5\<rparr>]) zero_stats) = 8
   \<and> (0 < MAX_SLOTS \<and> slots (read_hist (merge_stats True
         (Some [zero_stats\<lparr>read_count := 3\<rparr>, zero_stats\<lparr>read_count := 5\<rparr>]) zero_stats)) ! 0 = 0)"
proof -
  have m: "mset [zero_stats\<lparr>read_count := 3\<rparr>, zero_stats\<lparr>read_count := 5\<rparr>]
     = mset [zero_stats\<lparr>read_count := 5\<rparr>, zero_stats\<lparr>read_count := 3\<rparr>]"
    by simp
  have z: "0 < MAX_SLOTS" by (simp add: MAX_SLOTS_def)
  show ?thesis
    using m z merge_is_order_independent_sum[of
        "[zero_stats\<lparr>read_count := 3\<rparr>, zero_stats\<lparr>read_count := 5\<rparr>]"
        "[zero_stats\<lparr>read_count := 5\<rparr>, zero_stats\<lparr>read_count := 3\<rparr>]"
        zero_stats zero_stats zero_stats zero_stats zero_stats]
    by (simp add: zero_stats_simps zero_hist_nth)
qed

section \<open>One iteration of the flush loop\<close>

lemma calculate_percentile_defined:
  assumes "0 \<le> p" "p \<le> 100"
  shows "\<exists>v. calculate_percentile h n p = Some v"
proof (cases "n = 0")
  case True
  then show ?thesis by (simp add: calculate_percentile_def)
next
  case False
  obtain target where "double_to_ull (real (unat n) * p / 100) = Some target"
    using percentile_target_le_total[OF assms] by blast
  then show ?thesis using False
    by (cases "percentile_walk h target 0 [0..<MAX_SLOTS]")
       (simp_all only: calculate_percentile_def if_False option.case, blast+)
qed

lemma direction_percentiles_defined:
  "\<exists>p50 p95 p99 mx. direction_percentiles h c = Some (p50, p95, p99, mx)
      \<and> Some p50 = (if c > 0 then calculate_percentile h c 50 else Some 0)
      \<and> Some p95 = (if c > 0 then calculate_percentile h c 95 else Some 0)
      \<and> Some p99 = (if c > 0 then calculate_percentile h c 99 else Some 0)
      \<and> mx = (if c > 0 then get_max_latency h else 0)"
proof (cases "c > 0")
  case False
  then show ?thesis by (simp add: direction_percentiles_def)
next
  case True
  obtain a where a: "calculate_percentile h c 50 = Some a"
    using calculate_percentile_defined[of 50 h c] by auto
  obtain b where b: "calculate_percentile h c 95 = Some b"
    using calculate_percentile_defined[of 95 h c] by auto
  obtain d where d: "calculate_percentile h c 99 = Some d"
    using calculate_percentile_defined[of 99 h c] by auto
  show ?thesis using True a b d by (simp add: direction_percentiles_def)
qed

lemma print_stats_defined:
  "\<exists>line. print_stats stats ts = Some line
      \<and> out_timestamp line = ts
      \<and> out_read_count line = read_count stats
      \<and> out_read_bytes line = read_bytes stats
      \<and> out_write_count line = write_count stats
      \<and> out_write_bytes line = write_bytes stats
      \<and> Some (out_read_p50 line) =
          (if read_count stats > 0
           then calculate_percentile (read_hist stats) (read_count stats) 50 else Some 0)
      \<and> Some (out_read_p95 line) =
          (if read_count stats > 0
           then calculate_percentile (read_hist stats) (read_count stats) 95 else Some 0)
      \<and> Some (out_read_p99 line) =
          (if read_count stats > 0
           then calculate_percentile (read_hist stats) (read_count stats) 99 else Some 0)
      \<and> out_read_max line =
          (if read_count stats > 0 then get_max_latency (read_hist stats) else 0)
      \<and> Some (out_write_p50 line) =
          (if write_count stats > 0
           then calculate_percentile (write_hist stats) (write_count stats) 50 else Some 0)
      \<and> Some (out_write_p95 line) =
          (if write_count stats > 0
           then calculate_percentile (write_hist stats) (write_count stats) 95 else Some 0)
      \<and> Some (out_write_p99 line) =
          (if write_count stats > 0
           then calculate_percentile (write_hist stats) (write_count stats) 99 else Some 0)
      \<and> out_write_max line =
          (if write_count stats > 0 then get_max_latency (write_hist stats) else 0)"
proof -
  obtain r50 r95 r99 rmx where r:
    "direction_percentiles (read_hist stats) (read_count stats) = Some (r50, r95, r99, rmx)"
    "Some r50 = (if read_count stats > 0
           then calculate_percentile (read_hist stats) (read_count stats) 50 else Some 0)"
    "Some r95 = (if read_count stats > 0
           then calculate_percentile (read_hist stats) (read_count stats) 95 else Some 0)"
    "Some r99 = (if read_count stats > 0
           then calculate_percentile (read_hist stats) (read_count stats) 99 else Some 0)"
    "rmx = (if read_count stats > 0 then get_max_latency (read_hist stats) else 0)"
    using direction_percentiles_defined[of "read_hist stats" "read_count stats"] by blast
  obtain w50 w95 w99 wmx where w:
    "direction_percentiles (write_hist stats) (write_count stats) = Some (w50, w95, w99, wmx)"
    "Some w50 = (if write_count stats > 0
           then calculate_percentile (write_hist stats) (write_count stats) 50 else Some 0)"
    "Some w95 = (if write_count stats > 0
           then calculate_percentile (write_hist stats) (write_count stats) 95 else Some 0)"
    "Some w99 = (if write_count stats > 0
           then calculate_percentile (write_hist stats) (write_count stats) 99 else Some 0)"
    "wmx = (if write_count stats > 0 then get_max_latency (write_hist stats) else 0)"
    using direction_percentiles_defined[of "write_hist stats" "write_count stats"] by blast
  have "print_stats stats ts = Some \<lparr>out_timestamp = ts,
             out_read_count = read_count stats, out_read_bytes = read_bytes stats,
             out_read_p50 = r50, out_read_p95 = r95, out_read_p99 = r99,
             out_read_max = rmx,
             out_write_count = write_count stats, out_write_bytes = write_bytes stats,
             out_write_p50 = w50, out_write_p95 = w95, out_write_p99 = w99,
             out_write_max = wmx\<rparr>"
    by (simp add: print_stats_def r(1) w(1))
  then show ?thesis using r(2-5) w(2-5) by simp
qed

text \<open>
  Claim C7, as stated, fails: in an interval without any completed request the merged
  counts are both 0 and the iteration writes no summary record (the shards are reset all
  the same).
\<close>

theorem idle_interval_emits_nothing_counterexample:
  "flush_iteration
     \<lparr>env_time = 1700000000, env_merge_calloc_ok = True, env_lookup_ok = True,
       env_clear_calloc_ok = True, env_update_ok = True, env_uninitialised = zero_stats\<rparr>
     ([zero_stats, zero_stats], [])
   = Some ([zero_stats, zero_stats], [])"
  by (simp add: flush_iteration_def merge_stats_def merge_cpu_def clear_stats_def zero_stats_simps)

text \<open>
  Claim C7, amended. In every iteration in which the two allocations and the two map calls
  succeed, the consumer merges all per-CPU shards into one aggregate \<open>M\<close>; if the read count
  or the write count of \<open>M\<close> is positive it writes exactly one summary record, holding the
  counts and byte totals of \<open>M\<close> and, for each direction, the 50th, 95th and 99th percentile
  and the maximum when that direction's count is positive and 0 otherwise; if both counts
  are 0 it writes nothing; then every shard is reset to zero.
\<close>

theorem flush_iteration_merges_emits_resets:
  fixes env :: flush_env and shards :: "io_stats list" and out :: "io_summary list"
  defines "M \<equiv> foldl merge_cpu zero_stats shards"
  assumes ok: "env_merge_calloc_ok env" "env_lookup_ok env"
              "env_clear_calloc_ok env" "env_update_ok env"
  shows "\<exists>out'. flush_iteration env (shards, out)
                  = Some (replicate (length shards) zero_stats, out')
          \<and> (read_count M = 0 \<and> write_count M = 0 \<longrightarrow> out' = out)
          \<and> (read_count M > 0 \<or> write_count M > 0 \<longrightarrow>
               (\<exists>line. out' = out @ [line]
                  \<and> print_stats M (env_time env * 1000000000) = Some line
                  \<and> out_read_count line = read_count M
                  \<and> out_read_bytes line = read_bytes M
                  \<and> out_write_count line = write_count M
                  \<and> out_write_bytes line = write_bytes M
                  \<and> Some (out_read_p50 line) =
                      (if read_count M > 0
                       then calculate_percentile (read_hist M) (read_count M) 50 else Some 0)
                  \<and> Some (out_read_p95 line) =
                      (if read_count M > 0
                       then calculate_percentile (read_hist M) (read_count M) 95 else Some 0)
                  \<and> Some (out_read_p99 line) =
                      (if read_count M > 0
                       then calculate_percentile (read_hist M) (read_count M) 99 else Some 0)
                  \<and> out_read_max line =
                      (if read_count M > 0 then get_max_latency (read_hist M) else 0)
                  \<and> Some (out_write_p50 line) =
                      (if write_count M > 0
                       then calculate_percentile (write_hist M) (write_count M) 50 else Some 0)
                  \<and> Some (out_write_p95 line) =
                      (if write_count M > 0
                       then calculate_percentile (write_hist M) (write_count M) 95 else Some 0)
                  \<and> Some (out_write_p99 line) =
                      (if write_count M > 0
                       then calculate_percentile (write_hist M) (write_count M) 99 else Some 0)
                  \<and> out_write_max line =
                      (if write_count M > 0 then get_max_latency (write_hist M) else 0)))"
proof -
  have m: "merge_stats (env_merge_calloc_ok env)
             (if env_lookup_ok env then Some shards else None) (env_uninitialised env) = M"
    using ok by (simp add: merge_stats_def M_def)
  have c: "clear_stats (env_clear_calloc_ok env) (env_update_ok env) shards
             = replicate (length shards) zero_stats"
    using ok by (simp add: clear_stats_def)
  show ?thesis
  proof (cases "read_count M > 0 \<or> write_count M > 0")
    case False
    then have z: "read_count M = 0 \<and> write_count M = 0" by (auto simp: word_gt_0)
    have "flush_iteration env (shards, out) = Some (replicate (length shards) zero_stats, out)"
      using z by (simp add: flush_iteration_def m c)
    then show ?thesis using z by simp
  next
    case True
    obtain line where l: "print_stats M (env_time env * 1000000000) = Some line"
      and f: "out_read_count line = read_count M"
        "out_read_bytes line = read_bytes M"
        "out_write_count line = write_count M"
        "out_write_bytes line = write_bytes M"
        "Some (out_read_p50 line) =
                      (if read_count M > 0
                       then calculate_percentile (read_hist M) (read_count M) 50 else Some 0)"
        "Some (out_read_p95 line) =
                      (if read_count M > 0
                       then calculate_percentile (read_hist M) (read_count M) 95 else Some 0)"
        "Some (out_read_p99 line) =
                      (if read_count M > 0
                       then calculate_percentile (read_hist M) (read_count M) 99 else Some 0)"
        "out_read_max line =
                      (if read_count M > 0 then get_max_latency (read_hist M) else 0)"
        "Some (out_write_p50 line) =
                      (if write_count M > 0
                       then calculate_percentile (write_hist M) (write_count M) 50 else Some 0)"
        "Some (out_write_p95 line) =
                      (if write_count M > 0
                       then calculate_percentile (write_hist M) (write_count M) 95 else Some 0)"
        "Some (out_write_p99 line) =
                      (if write_count M > 0
                       then calculate_percentile (write_hist M) (write_count M) 99 else Some 0)"
        "out_write_max line =
                      (if write_count M > 0 then get_max_latency (write_hist M) else 0)"
      using print_stats_defined[of M "env_time env * 1000000000"] by blast
    have nz: "\<not> (read_count M = 0 \<and> write_count M = 0)" using True by auto
    have "flush_iteration env (shards, out)
            = Some (replicate (length shards) zero_stats, out @ [line])"
      using True by (simp add: flush_iteration_def m c l)
    then show ?thesis using nz l f by blast
  qed
qed


theorem flush_iteration_merges_emits_resets_witness:
  "\<exists>out'. flush_iteration
       \<lparr>env_time = 1700000000, env_merge_calloc_ok = True, env_lookup_ok = True,
         env_clear_calloc_ok = True, env_update_ok = True, env_uninitialised = zero_stats\<rparr>
       ([zero_stats\<lparr>read_count := 4\<rparr>, zero_stats\<lparr>read_count := 6\<rparr>], [])
      = Some ([zero_stats, zero_stats], out')
    \<and> (\<exists>line. out' = [line] \<and> out_read_count line = 10 \<and> out_write_count line = 0
          \<and> out_write_p50 line = 0)"
proof -
  have rc: "read_count (foldl merge_cpu zero_stats
              [zero_stats\<lparr>read_count := 4\<rparr>, zero_stats\<lparr>read_count := 6\<rparr>]) = 10"
    by (simp add: merge_cpu_def zero_stats_simps)
  have wc: "write_count (foldl merge_cpu zero_stats
              [zero_stats\<lparr>read_count := 4\<rparr>, zero_stats\<lparr>read_count := 6\<rparr>]) = 0"
    by (simp add: merge_cpu_def zero_stats_simps)
  show ?thesis
    using flush_iteration_merges_emits_resets[of
       "\<lparr>env_time = 1700000000, env_merge_calloc_ok = True, env_lookup_ok = True,
         env_clear_calloc_ok = True, env_update_ok = True, env_uninitialised = zero_stats\<rparr>"
       "[zero_stats\<lparr>read_count := 4\<rparr>, zero_stats\<lparr>read_count := 6\<rparr>]" "[]"]
    unfolding rc wc
    by auto
qed

section \<open>Scheduler buckets: counters\<close>

lemma ucast_succ_64_32: "(ucast (x + 1 :: u64) :: u32) = ucast x + 1"
proof -
  have a: "unat (ucast (x + 1) :: u32) = unat (x + 1) mod 2 ^ 32"
    by (simp only: unsigned_ucast_eq take_bit_eq_mod) simp
  have b: "unat (x + 1) = (unat x + 1) mod 2 ^ 64"
    by (simp add: unat_word_ariths)
  have c0: "unat (ucast x :: u32) = unat x mod 2 ^ 32"
    by (simp only: unsigned_ucast_eq take_bit_eq_mod) simp
  have c: "unat (ucast x + 1 :: u32) = (unat x mod 2 ^ 32 + 1) mod 2 ^ 32"
    by (simp add: unat_word_ariths c0)
  have d: "(unat x + 1) mod 2 ^ 64 mod 2 ^ 32 = (unat x + 1) mod (2 ^ 32 :: nat)"
    by (rule mod_mod_cancel) simp
  have e: "(unat x + 1) mod (2 ^ 32 :: nat) = (unat x mod 2 ^ 32 + 1) mod 2 ^ 32"
    by (simp only: mod_add_left_eq)
  have "unat (ucast (x + 1) :: u32) = unat (ucast x + 1 :: u32)"
    by (simp only: a b c d e)
  then show ?thesis by (simp only: word_unat_eq_iff)
qed


lemma bucket_counted_imp_inv: "bucket_counted b \<Longrightarrow> bucket_inv b"
proof -
  assume c: "bucket_counted b"
  have "unat (ucast (context_switches b) :: u32) = unat (context_switches b) mod 2 ^ 32"
    by (simp only: unsigned_ucast_eq take_bit_eq_mod) simp
  then have "unat (ucast (context_switches b) :: u32) \<le> unat (context_switches b)"
    by simp
  then show ?thesis using c by (simp add: bucket_counted_def bucket_inv_def)
qed

lemma bpf_map_update_elem_cases:
  "bpf_map_update_elem n m k v = m(k \<mapsto> v) \<or> bpf_map_update_elem n m k v = m"
  by (simp add: bpf_map_update_elem_def)

lemma update_bucket_stats_counted:
  assumes all: "\<forall>k b. buckets k = Some b \<longrightarrow> bucket_counted b"
    and wk: "is_wakeup \<longrightarrow> cpu_time = 0"
  shows "\<forall>k b. update_bucket_stats p tb cpu_time is_voluntary is_wakeup cm buckets k = Some b
            \<longrightarrow> bucket_counted b"
proof (cases "buckets \<lparr>key_pid = p, key_time_bucket = tb\<rparr>")
  case None
  let ?new = "\<lparr>time_bucket = tb, pid = p, comm = cm,
                 context_switches = (if is_wakeup then 0 else 1),
                 voluntary_switches = (if is_wakeup \<or> \<not> is_voluntary then 0 else 1),
                 involuntary_switches = (if is_wakeup \<or> is_voluntary then 0 else 1),
                 wakeups = (if is_wakeup then 1 else 0),
                 cpu_time_ns = cpu_time, total_timeslice_ns = cpu_time,
                 timeslice_count = (if is_wakeup then 0 else 1)\<rparr>"
  have new: "bucket_counted ?new" by (simp add: bucket_counted_def)
  have eq: "update_bucket_stats p tb cpu_time is_voluntary is_wakeup cm buckets
          = bpf_map_update_elem sched_max_entries buckets \<lparr>key_pid = p, key_time_bucket = tb\<rparr> ?new"
    using None by (simp add: update_bucket_stats_def)
  show ?thesis
    unfolding eq
    using bpf_map_update_elem_cases[of sched_max_entries buckets
            "\<lparr>key_pid = p, key_time_bucket = tb\<rparr>" ?new] all new
    by (auto split: if_splits)
next
  case (Some stats)
  then have st: "bucket_counted stats" using all by blast
  show ?thesis
  proof (cases is_wakeup)
    case True
    have "bucket_counted (stats\<lparr>wakeups := wakeups stats + 1\<rparr>)"
      using st by (simp add: bucket_counted_def)
    then show ?thesis using Some True all
      by (auto simp add: update_bucket_stats_def split: if_splits)
  next
    case False
    let ?s1 = "stats\<lparr>context_switches := context_switches stats + 1\<rparr>"
    let ?s2 = "(if is_voluntary
                 then ?s1\<lparr>voluntary_switches := voluntary_switches ?s1 + 1\<rparr>
                 else ?s1\<lparr>involuntary_switches := involuntary_switches ?s1 + 1\<rparr>)"
    let ?s3 = "?s2\<lparr>cpu_time_ns := cpu_time_ns ?s2 + cpu_time,
                     total_timeslice_ns := total_timeslice_ns ?s2 + cpu_time,
                     timeslice_count := timeslice_count ?s2 + 1\<rparr>"
    have "bucket_counted ?s3"
      using st by (simp add: bucket_counted_def ucast_succ_64_32)
    moreover have "update_bucket_stats p tb cpu_time is_voluntary is_wakeup cm buckets
            = buckets(\<lparr>key_pid = p, key_time_bucket = tb\<rparr> \<mapsto> ?s3)"
      using Some False by (simp add: update_bucket_stats_def Let_def)
    ultimately show ?thesis using all by (auto split: if_splits)
  qed
qed

lemma emit_bucket_stats_copy:
  "emit_bucket_stats ok stats events = (if ok then events @ [stats] else events)"
  by (simp add: emit_bucket_stats_def)

lemma switch_prev_counted:
  assumes "sched_counted st"
  shows "sched_counted (switch_prev ctx st)"
proof (cases "prev_pid ctx > 0")
  case False
  then show ?thesis using assms by (simp add: switch_prev_def)
next
  case True
  let ?tb = "switch_ktime ctx div NSEC_PER_SEC"
  define st1 where "st1 =
     (case process_state_map st (prev_pid ctx) of
        Some state \<Rightarrow>
          (let st_emit =
                 (if last_bucket state \<noteq> 0 \<and> last_bucket state \<noteq> ?tb
                  then
                    (let old_key = \<lparr>key_pid = prev_pid ctx,
                                    key_time_bucket = last_bucket state\<rparr>
                     in case bucket_aggregates st old_key of
                          Some old_stats \<Rightarrow>
                            st\<lparr>sched_events :=
                                  emit_bucket_stats (switch_reserve_ok ctx) old_stats
                                    (sched_events st),
                                bucket_aggregates :=
                                  bpf_map_delete_elem (bucket_aggregates st) old_key\<rparr>
                        | None \<Rightarrow> st)
                  else st)
           in st_emit\<lparr>process_state_map :=
                (process_state_map st_emit)
                  (prev_pid ctx \<mapsto> state\<lparr>last_bucket := ?tb\<rparr>)\<rparr>)
      | None \<Rightarrow>
          (let new_state = \<lparr>last_switch_ts = 0, last_bucket = ?tb,
                             state_comm = read_comm (prev_comm ctx)\<rparr>
           in st\<lparr>process_state_map :=
                  bpf_map_update_elem sched_max_entries (process_state_map st)
                    (prev_pid ctx) new_state\<rparr>))"
  have c1: "sched_counted st1"
    using assms unfolding st1_def sched_counted_def
    by (auto simp add: Let_def emit_bucket_stats_copy bpf_map_delete_elem_def
             split: option.splits if_splits)
  obtain cpu_time vol where
    res: "switch_prev ctx st = st1\<lparr>bucket_aggregates :=
             update_bucket_stats (prev_pid ctx) ?tb cpu_time vol False
               (read_comm (prev_comm ctx)) (bucket_aggregates st1)\<rparr>"
    using True unfolding switch_prev_def st1_def Let_def by auto
  have "\<forall>k b. update_bucket_stats (prev_pid ctx) ?tb cpu_time vol False
               (read_comm (prev_comm ctx)) (bucket_aggregates st1) k = Some b
            \<longrightarrow> bucket_counted b"
    using c1 by (intro update_bucket_stats_counted) (simp_all add: sched_counted_def)
  then show ?thesis using c1 unfolding res sched_counted_def by simp
qed

lemma switch_next_counted:
  "sched_counted st \<Longrightarrow> sched_counted (switch_next ctx st)"
  by (simp add: switch_next_def sched_counted_def Let_def split: option.splits)

lemma trace_sched_wakeup_counted:
  assumes "sched_counted st"
  shows "sched_counted (trace_sched_wakeup ctx st)"
proof (cases "wakeup_pid ctx = 0")
  case True
  then show ?thesis using assms by (simp add: trace_sched_wakeup_def)
next
  case False
  have "\<forall>k b. update_bucket_stats (wakeup_pid ctx) (wakeup_ktime ctx div NSEC_PER_SEC) 0 False
                 True (wakeup_comm ctx) (bucket_aggregates st) k = Some b
            \<longrightarrow> bucket_counted b"
    using assms by (intro update_bucket_stats_counted) (simp_all add: sched_counted_def)
  then show ?thesis using assms False
    by (simp add: trace_sched_wakeup_def sched_counted_def Let_def)
qed

lemma sched_fire_counted:
  "sched_counted st \<Longrightarrow> sched_counted (sched_fire st tp)"
  by (cases tp)
     (simp_all add: trace_sched_switch_def switch_prev_counted switch_next_counted
        trace_sched_wakeup_counted)

lemma foldl_sched_fire_counted:
  "sched_counted st \<Longrightarrow> sched_counted (foldl sched_fire st tps)"
  by (induction tps arbitrary: st) (simp_all add: sched_fire_counted)

lemma sched_run_counted: "sched_counted (sched_run tps)"
  unfolding sched_run_def
  by (rule foldl_sched_fire_counted) (simp add: sched_counted_def sched_init_def)


lemma bpf_map_update_elem_empty [simp]:
  "bpf_map_update_elem sched_max_entries Map.empty k v = [k \<mapsto> v]"
  by (simp add: bpf_map_update_elem_def sched_max_entries_def)

lemma run_example_first:
  "trace_sched_switch
     \<lparr>switch_ktime = 5500000000, prev_pid = 7, prev_state = 1, prev_comm = ''sh'',
       next_pid = 0, next_comm = ''swapper'', switch_reserve_ok = True\<rparr> sched_init
   = \<lparr>process_state_map = [7 \<mapsto> \<lparr>last_switch_ts = 0, last_bucket = 5, state_comm = ''sh''\<rparr>],
      bucket_aggregates = [\<lparr>key_pid = 7, key_time_bucket = 5\<rparr> \<mapsto>
         \<lparr>time_bucket = 5, pid = 7, comm = ''sh'', context_switches = 1,
           voluntary_switches = 1, involuntary_switches = 0, wakeups = 0,
           cpu_time_ns = 0, total_timeslice_ns = 0, timeslice_count = 1\<rparr>],
      sched_events = []\<rparr>"
  by (simp add: trace_sched_switch_def switch_prev_def switch_next_def sched_init_def
        update_bucket_stats_def NSEC_PER_SEC_def read_comm_def TASK_COMM_LEN_def Let_def)

lemma switch_prev_found_states:
  assumes "0 < prev_pid ctx" "process_state_map st (prev_pid ctx) = Some s"
  shows "process_state_map (switch_prev ctx st)
           = (process_state_map st)
               (prev_pid ctx \<mapsto> s\<lparr>last_bucket := switch_ktime ctx div NSEC_PER_SEC\<rparr>)"
  using assms
  by (simp add: switch_prev_def Let_def split: option.splits)

lemma switch_prev_found_events:
  assumes "0 < prev_pid ctx" "process_state_map st (prev_pid ctx) = Some s"
  shows "sched_events (switch_prev ctx st)
           = (if last_bucket s \<noteq> 0 \<and> last_bucket s \<noteq> switch_ktime ctx div NSEC_PER_SEC
              then case bucket_aggregates st
                          \<lparr>key_pid = prev_pid ctx, key_time_bucket = last_bucket s\<rparr> of
                     Some b \<Rightarrow> if switch_reserve_ok ctx then sched_events st @ [b]
                               else sched_events st
                   | None \<Rightarrow> sched_events st
              else sched_events st)"
  using assms
  by (simp add: switch_prev_def Let_def emit_bucket_stats_copy split: option.splits)

lemma switch_prev_found_buckets:
  assumes "0 < prev_pid ctx" "process_state_map st (prev_pid ctx) = Some s"
  shows "bucket_aggregates (switch_prev ctx st)
           = update_bucket_stats (prev_pid ctx) (switch_ktime ctx div NSEC_PER_SEC)
               (if last_switch_ts s > 0 then switch_ktime ctx - last_switch_ts s else 0)
               ((ucast (prev_state ctx) :: u32) \<noteq> 0) False (read_comm (prev_comm ctx))
               (if last_bucket s \<noteq> 0 \<and> last_bucket s \<noteq> switch_ktime ctx div NSEC_PER_SEC
                then (bucket_aggregates st)
                       (\<lparr>key_pid = prev_pid ctx, key_time_bucket = last_bucket s\<rparr> := None)
                else bucket_aggregates st)"
proof -
  have del: "bucket_aggregates st \<lparr>key_pid = prev_pid ctx, key_time_bucket = last_bucket s\<rparr> = None
     \<Longrightarrow> (bucket_aggregates st)
           (\<lparr>key_pid = prev_pid ctx, key_time_bucket = last_bucket s\<rparr> := None)
         = bucket_aggregates st"
    by (simp add: fun_upd_idem)
  show ?thesis
    using assms del
    by (simp add: switch_prev_def Let_def bpf_map_delete_elem_def split: option.splits)
qed

lemma switch_prev_new:
  assumes "0 < prev_pid ctx" "process_state_map st (prev_pid ctx) = None"
  shows "process_state_map (switch_prev ctx st)
           = bpf_map_update_elem sched_max_entries (process_state_map st) (prev_pid ctx)
               \<lparr>last_switch_ts = 0, last_bucket = switch_ktime ctx div NSEC_PER_SEC,
                 state_comm = read_comm (prev_comm ctx)\<rparr>"
    and "sched_events (switch_prev ctx st) = sched_events st"
    and "bucket_aggregates (switch_prev ctx st)
           = update_bucket_stats (prev_pid ctx) (switch_ktime ctx div NSEC_PER_SEC) 0
               ((ucast (prev_state ctx) :: u32) \<noteq> 0) False (read_comm (prev_comm ctx))
               (bucket_aggregates st)"
  using assms by (simp_all add: switch_prev_def Let_def)

lemma switch_prev_idle:
  "\<not> 0 < prev_pid ctx \<Longrightarrow> switch_prev ctx st = st"
  by (simp add: switch_prev_def Let_def)

lemma switch_next_fields:
  "bucket_aggregates (switch_next ctx st) = bucket_aggregates st"
  "sched_events (switch_next ctx st) = sched_events st"
  by (simp_all add: switch_next_def Let_def split: option.splits)

lemma switch_next_last_bucket:
  "process_state_map st p = Some s \<Longrightarrow>
   \<exists>s'. process_state_map (switch_next ctx st) p = Some s' \<and> last_bucket s' = last_bucket s"
  by (auto simp add: switch_next_def Let_def bpf_map_update_elem_def split: option.splits)

lemma switch_next_states:
  "process_state_map (switch_next ctx st) p = Some s' \<Longrightarrow>
   (\<exists>s. process_state_map st p = Some s \<and> last_bucket s' = last_bucket s)
   \<or> (process_state_map st p = None \<and> last_bucket s' = switch_ktime ctx div NSEC_PER_SEC)"
  by (auto simp add: switch_next_def Let_def bpf_map_update_elem_def
           split: option.splits if_splits)

lemma update_bucket_stats_other_key:
  "k \<noteq> \<lparr>key_pid = p, key_time_bucket = tb\<rparr> \<Longrightarrow>
   update_bucket_stats p tb d v w cm buckets k = buckets k"
  by (simp add: update_bucket_stats_def Let_def bpf_map_update_elem_def split: option.splits)

lemma update_bucket_stats_keyed:
  assumes "\<forall>k b. buckets k = Some b \<longrightarrow> pid b = key_pid k \<and> time_bucket b = key_time_bucket k"
  shows "\<forall>k b. update_bucket_stats p tb d v w cm buckets k = Some b
           \<longrightarrow> pid b = key_pid k \<and> time_bucket b = key_time_bucket k"
proof (intro allI impI)
  fix k b
  assume u: "update_bucket_stats p tb d v w cm buckets k = Some b"
  show "pid b = key_pid k \<and> time_bucket b = key_time_bucket k"
  proof (cases "k = \<lparr>key_pid = p, key_time_bucket = tb\<rparr>")
    case False
    then show ?thesis using u assms by (simp add: update_bucket_stats_other_key)
  next
    case True
    show ?thesis
    proof (cases "buckets k")
      case None
      then show ?thesis using u True
        by (auto simp add: update_bucket_stats_def Let_def bpf_map_update_elem_def
                 split: if_splits)
    next
      case (Some old)
      then have "pid old = key_pid k \<and> time_bucket old = key_time_bucket k"
        using assms by blast
      then show ?thesis using u True Some
        by (auto simp add: update_bucket_stats_def Let_def split: if_splits)
    qed
  qed
qed

lemma update_bucket_stats_existing_switch:
  assumes "buckets \<lparr>key_pid = p, key_time_bucket = tb\<rparr> = Some old"
  shows "\<exists>new. update_bucket_stats p tb d v False cm buckets
                  \<lparr>key_pid = p, key_time_bucket = tb\<rparr> = Some new
            \<and> cpu_time_ns new = cpu_time_ns old + d
            \<and> total_timeslice_ns new = total_timeslice_ns old + d
            \<and> context_switches new = context_switches old + 1"
  using assms by (simp add: update_bucket_stats_def Let_def)

lemma trace_sched_wakeup_keeps_times:
  assumes "bucket_aggregates st k = Some old"
  shows "\<exists>new. bucket_aggregates (trace_sched_wakeup wctx st) k = Some new
            \<and> cpu_time_ns new = cpu_time_ns old
            \<and> total_timeslice_ns new = total_timeslice_ns old
            \<and> context_switches new = context_switches old"
proof (cases "wakeup_pid wctx \<noteq> 0
              \<and> k = \<lparr>key_pid = wakeup_pid wctx,
                      key_time_bucket = wakeup_ktime wctx div NSEC_PER_SEC\<rparr>")
  case True
  then show ?thesis using assms
    by (simp add: trace_sched_wakeup_def update_bucket_stats_def Let_def)
next
  case False
  then show ?thesis using assms
    by (auto simp add: trace_sched_wakeup_def Let_def update_bucket_stats_other_key)
qed

text \<open>
  Claim C8. In every state the tracer reaches from empty maps, through any sequence of
  \<^verbatim>\<open>sched_switch\<close> and \<^verbatim>\<open>sched_wakeup\<close> firings, every bucket stored in
  \<^verbatim>\<open>bucket_aggregates\<close> and every record submitted to the ring buffer has
  \<open>context_switches\<close> equal to \<open>voluntary_switches + involuntary_switches\<close> (in the 64-bit
  counters' arithmetic), \<open>timeslice_count\<close> at most \<open>context_switches\<close>, and \<open>cpu_time_ns\<close>
  equal to \<open>total_timeslice_ns\<close>. A state change on a stored bucket adds the same duration
  to both time fields; a wakeup changes neither of them.
\<close>

theorem bucket_stats_invariant:
  "(\<forall>k b. bucket_aggregates (sched_run tps) k = Some b \<longrightarrow> bucket_inv b)
   \<and> (\<forall>b \<in> set (sched_events (sched_run tps)). bucket_inv b)
   \<and> (buckets \<lparr>key_pid = p, key_time_bucket = tb\<rparr> = Some old \<longrightarrow>
        (\<exists>new. update_bucket_stats p tb d v False cm buckets
                  \<lparr>key_pid = p, key_time_bucket = tb\<rparr> = Some new
            \<and> cpu_time_ns new = cpu_time_ns old + d
            \<and> total_timeslice_ns new = total_timeslice_ns old + d))
   \<and> (bucket_aggregates st k' = Some old' \<longrightarrow>
        (\<exists>new. bucket_aggregates (trace_sched_wakeup wctx st) k' = Some new
            \<and> cpu_time_ns new = cpu_time_ns old'
            \<and> total_timeslice_ns new = total_timeslice_ns old'))"
proof -
  have c: "sched_counted (sched_run tps)" by (rule sched_run_counted)
  have a: "\<forall>k b. bucket_aggregates (sched_run tps) k = Some b \<longrightarrow> bucket_inv b"
    using c bucket_counted_imp_inv unfolding sched_counted_def by blast
  have b: "\<forall>b \<in> set (sched_events (sched_run tps)). bucket_inv b"
    using c bucket_counted_imp_inv unfolding sched_counted_def by blast
  have s: "buckets \<lparr>key_pid = p, key_time_bucket = tb\<rparr> = Some old \<longrightarrow>
        (\<exists>new. update_bucket_stats p tb d v False cm buckets
                  \<lparr>key_pid = p, key_time_bucket = tb\<rparr> = Some new
            \<and> cpu_time_ns new = cpu_time_ns old + d
            \<and> total_timeslice_ns new = total_timeslice_ns old + d)"
    using update_bucket_stats_existing_switch[of buckets p tb old d v cm] by blast
  have w: "bucket_aggregates st k' = Some old' \<longrightarrow>
        (\<exists>new. bucket_aggregates (trace_sched_wakeup wctx st) k' = Some new
            \<and> cpu_time_ns new = cpu_time_ns old'
            \<and> total_timeslice_ns new = total_timeslice_ns old')"
    using trace_sched_wakeup_keeps_times[of st k' old' wctx] by blast
  show ?thesis using a b s w by (intro conjI)
qed

lemma example_run:
  "sched_run
     [Sched_switch \<lparr>switch_ktime = 5500000000, prev_pid = 7, prev_state = 1, prev_comm = ''sh'',
                    next_pid = 0, next_comm = ''idle'', switch_reserve_ok = True\<rparr>,
      Sched_wakeup \<lparr>wakeup_ktime = 5600000000, wakeup_comm = ''sh'', wakeup_pid = 7\<rparr>,
      Sched_switch \<lparr>switch_ktime = 6100000000, prev_pid = 0, prev_state = 0, prev_comm = ''idle'',
                    next_pid = 7, next_comm = ''sh'', switch_reserve_ok = True\<rparr>,
      Sched_switch \<lparr>switch_ktime = 7200000000, prev_pid = 7, prev_state = 0, prev_comm = ''sh'',
                    next_pid = 0, next_comm = ''idle'', switch_reserve_ok = True\<rparr>]
   = \<lparr>process_state_map =
        [7 \<mapsto> \<lparr>last_switch_ts = 6100000000, last_bucket = 7, state_comm = ''sh''\<rparr>],
      bucket_aggregates =
        [\<lparr>key_pid = 7, key_time_bucket = 7\<rparr> \<mapsto>
           \<lparr>time_bucket = 7, pid = 7, comm = ''sh'', context_switches = 1,
             voluntary_switches = 0, involuntary_switches = 1, wakeups = 0,
             cpu_time_ns = 1100000000, total_timeslice_ns = 1100000000, timeslice_count = 1\<rparr>],
      sched_events =
        [\<lparr>time_bucket = 5, pid = 7, comm = ''sh'', context_switches = 1,
          voluntary_switches = 1, involuntary_switches = 0, wakeups = 1,
          cpu_time_ns = 0, total_timeslice_ns = 0, timeslice_count = 1\<rparr>]\<rparr>"
  by (simp add: sched_run_def trace_sched_switch_def switch_prev_def switch_next_def sched_init_def
        trace_sched_wakeup_def update_bucket_stats_def emit_bucket_stats_def
        bpf_map_delete_elem_def
        NSEC_PER_SEC_def read_comm_def TASK_COMM_LEN_def Let_def fun_upd_twist)


theorem bucket_stats_invariant_witness:
  "let run = sched_run
         [Sched_switch \<lparr>switch_ktime = 5500000000, prev_pid = 7, prev_state = 1,
            prev_comm = ''sh'', next_pid = 0, next_comm = ''idle'', switch_reserve_ok = True\<rparr>,
          Sched_wakeup \<lparr>wakeup_ktime = 5600000000, wakeup_comm = ''sh'', wakeup_pid = 7\<rparr>,
          Sched_switch \<lparr>switch_ktime = 6100000000, prev_pid = 0, prev_state = 0,
            prev_comm = ''idle'', next_pid = 7, next_comm = ''sh'', switch_reserve_ok = True\<rparr>,
          Sched_switch \<lparr>switch_ktime = 7200000000, prev_pid = 7, prev_state = 0,
            prev_comm = ''sh'', next_pid = 0, next_comm = ''idle'', switch_reserve_ok = True\<rparr>];
       b5 = \<lparr>time_bucket = 5, pid = 7, comm = ''sh'', context_switches = 1,
              voluntary_switches = 1, involuntary_switches = 0, wakeups = 1,
              cpu_time_ns = 0, total_timeslice_ns = 0, timeslice_count = 1\<rparr>;
       b7 = \<lparr>time_bucket = 7, pid = 7, comm = ''sh'', context_switches = 1,
              voluntary_switches = 0, involuntary_switches = 1, wakeups = 0,
              cpu_time_ns = 1100000000, total_timeslice_ns = 1100000000, timeslice_count = 1\<rparr>
   in bucket_aggregates run \<lparr>key_pid = 7, key_time_bucket = 7\<rparr> = Some b7
      \<and> bucket_inv b7
      \<and> b5 \<in> set (sched_events run)
      \<and> bucket_inv b5
      \<and> (\<exists>new. update_bucket_stats 7 7 250 True False ''sh'' (bucket_aggregates run)
                   \<lparr>key_pid = 7, key_time_bucket = 7\<rparr> = Some new
             \<and> cpu_time_ns new = 1100000250 \<and> total_timeslice_ns new = 1100000250)
      \<and> (\<exists>new. bucket_aggregates
                   (trace_sched_wakeup \<lparr>wakeup_ktime = 7300000000, wakeup_comm = ''sh'',
                                         wakeup_pid = 7\<rparr> run)
                   \<lparr>key_pid = 7, key_time_bucket = 7\<rparr> = Some new
             \<and> cpu_time_ns new = 1100000000 \<and> total_timeslice_ns new = 1100000000)"
proof -
  let ?tps = "[Sched_switch \<lparr>switch_ktime = 5500000000, prev_pid = 7, prev_state = 1,
            prev_comm = ''sh'', next_pid = 0, next_comm = ''idle'', switch_reserve_ok = True\<rparr>,
          Sched_wakeup \<lparr>wakeup_ktime = 5600000000, wakeup_comm = ''sh'', wakeup_pid = 7\<rparr>,
          Sched_switch \<lparr>switch_ktime = 6100000000, prev_pid = 0, prev_state = 0,
            prev_comm = ''idle'', next_pid = 7, next_comm = ''sh'', switch_reserve_ok = True\<rparr>,
          Sched_switch \<lparr>switch_ktime = 7200000000, prev_pid = 7, prev_state = 0,
            prev_comm = ''sh'', next_pid = 0, next_comm = ''idle'', switch_reserve_ok = True\<rparr>]"
  let ?b5 = "\<lparr>time_bucket = 5, pid = 7, comm = ''sh'', context_switches = 1,
              voluntary_switches = 1, involuntary_switches = 0, wakeups = 1,
              cpu_time_ns = 0, total_timeslice_ns = 0, timeslice_count = 1\<rparr>"
  let ?b7 = "\<lparr>time_bucket = 7, pid = 7, comm = ''sh'', context_switches = 1,
              voluntary_switches = 0, involuntary_switches = 1, wakeups = 0,
              cpu_time_ns = 1100000000, total_timeslice_ns = 1100000000, timeslice_count = 1\<rparr>"
  have k: "bucket_aggregates (sched_run ?tps) \<lparr>key_pid = 7, key_time_bucket = 7\<rparr> = Some ?b7"
    by (simp add: example_run)
  have e: "?b5 \<in> set (sched_events (sched_run ?tps))"
    by (simp add: example_run)
  show ?thesis
    unfolding Let_def
    using k e bucket_stats_invariant[of ?tps "bucket_aggregates (sched_run ?tps)" 7 7 ?b7
        250 True "''sh''" "sched_run ?tps" "\<lparr>key_pid = 7, key_time_bucket = 7\<rparr>" ?b7
        "\<lparr>wakeup_ktime = 7300000000, wakeup_comm = ''sh'', wakeup_pid = 7\<rparr>"]
    by auto
qed

section \<open>Scheduler buckets: rollover\<close>

lemma rollover_inv_mono:
  "rollover_inv T st \<Longrightarrow> T \<le> T' \<Longrightarrow> rollover_inv T' st"
  unfolding rollover_inv_def by (meson order_trans)

lemma switch_prev_rollover:
  assumes inv: "rollover_inv T st" and le: "T \<le> switch_ktime ctx div NSEC_PER_SEC"
  shows "rollover_inv (switch_ktime ctx div NSEC_PER_SEC) (switch_prev ctx st)"
proof -
  let ?tb = "switch_ktime ctx div NSEC_PER_SEC"
  let ?p = "prev_pid ctx"
  from inv have keyed: "\<forall>k b. bucket_aggregates st k = Some b \<longrightarrow>
           pid b = key_pid k \<and> time_bucket b = key_time_bucket k"
    and bound: "\<forall>p s. process_state_map st p = Some s \<longrightarrow> last_bucket s \<le> T"
    and past: "\<forall>b \<in> set (sched_events st).
            \<exists>s. process_state_map st (pid b) = Some s \<and> time_bucket b < last_bucket s"
    and dist: "distinct (map (\<lambda>b. (pid b, time_bucket b)) (sched_events st))"
    by (simp_all add: rollover_inv_def)
  show ?thesis
  proof (cases "0 < ?p")
    case False
    then show ?thesis using inv le by (simp add: switch_prev_idle rollover_inv_mono)
  next
    case pos: True
    show ?thesis
    proof (cases "process_state_map st ?p")
      case None
      note new = switch_prev_new[OF pos None]
      have k: "\<forall>k b. bucket_aggregates (switch_prev ctx st) k = Some b \<longrightarrow>
           pid b = key_pid k \<and> time_bucket b = key_time_bucket k"
        unfolding new(3) using keyed by (rule update_bucket_stats_keyed)
      have b: "\<forall>p s. process_state_map (switch_prev ctx st) p = Some s \<longrightarrow> last_bucket s \<le> ?tb"
        unfolding new(1) using bound le
        by (auto simp add: bpf_map_update_elem_def split: if_splits intro: order_trans)
      have pa: "\<forall>b \<in> set (sched_events (switch_prev ctx st)).
            \<exists>s. process_state_map (switch_prev ctx st) (pid b) = Some s
                 \<and> time_bucket b < last_bucket s"
        unfolding new(1,2) using past None
        by (auto simp add: bpf_map_update_elem_def)
      show ?thesis using k b pa dist by (simp add: rollover_inv_def new(2))
    next
      case (Some s)
      note ps = switch_prev_found_states[OF pos Some]
      note ev = switch_prev_found_events[OF pos Some]
      note bu = switch_prev_found_buckets[OF pos Some]
      let ?old = "\<lparr>key_pid = ?p, key_time_bucket = last_bucket s\<rparr>"
      have sT: "last_bucket s \<le> T" using bound Some by blast
      have k0: "\<forall>k b. (if last_bucket s \<noteq> 0 \<and> last_bucket s \<noteq> ?tb
                then (bucket_aggregates st)(?old := None)
                else bucket_aggregates st) k = Some b \<longrightarrow>
           pid b = key_pid k \<and> time_bucket b = key_time_bucket k"
        using keyed by (auto split: if_splits)
      have k: "\<forall>k b. bucket_aggregates (switch_prev ctx st) k = Some b \<longrightarrow>
           pid b = key_pid k \<and> time_bucket b = key_time_bucket k"
        unfolding bu using k0 by (rule update_bucket_stats_keyed)
      have b: "\<forall>p s. process_state_map (switch_prev ctx st) p = Some s \<longrightarrow> last_bucket s \<le> ?tb"
        unfolding ps using bound le by (auto intro: order_trans)
      have old_past: "\<forall>b \<in> set (sched_events st).
            \<exists>s'. process_state_map (switch_prev ctx st) (pid b) = Some s'
                 \<and> time_bucket b < last_bucket s'"
      proof
        fix b assume "b \<in> set (sched_events st)"
        then obtain s0 where s0: "process_state_map st (pid b) = Some s0"
          and lt: "time_bucket b < last_bucket s0" using past by blast
        show "\<exists>s'. process_state_map (switch_prev ctx st) (pid b) = Some s'
                 \<and> time_bucket b < last_bucket s'"
        proof (cases "pid b = ?p")
          case False
          then show ?thesis using s0 lt by (simp add: ps)
        next
          case True
          then have "s0 = s" using s0 Some by simp
          moreover have "last_bucket s \<le> ?tb" using sT le by (rule order_trans)
          ultimately have "time_bucket b < ?tb" using lt by simp
          then show ?thesis using True by (simp add: ps)
        qed
      qed
      show ?thesis
      proof (cases "last_bucket s \<noteq> 0 \<and> last_bucket s \<noteq> ?tb \<and> switch_reserve_ok ctx
                    \<and> bucket_aggregates st ?old \<noteq> None")
        case False
        then have e: "sched_events (switch_prev ctx st) = sched_events st"
          unfolding ev by (auto split: option.splits)
        show ?thesis using k b old_past dist by (simp add: rollover_inv_def e)
      next
        case True
        then obtain ob where ob: "bucket_aggregates st ?old = Some ob" by auto
        have e: "sched_events (switch_prev ctx st) = sched_events st @ [ob]"
          unfolding ev using True ob by simp
        have obk: "pid ob = ?p" "time_bucket ob = last_bucket s"
          using keyed ob by auto
        have "last_bucket s \<le> ?tb" using sT le by (rule order_trans)
        then have lt: "last_bucket s < ?tb" using True by (simp add: order.strict_iff_order)
        have new_past: "\<exists>s'. process_state_map (switch_prev ctx st) (pid ob) = Some s'
                 \<and> time_bucket ob < last_bucket s'"
          using lt by (simp add: ps obk)
        have fresh: "(pid ob, time_bucket ob)
                       \<notin> set (map (\<lambda>b. (pid b, time_bucket b)) (sched_events st))"
        proof
          assume "(pid ob, time_bucket ob)
                       \<in> set (map (\<lambda>b. (pid b, time_bucket b)) (sched_events st))"
          then obtain b0 where b0: "b0 \<in> set (sched_events st)"
            and pe: "pid b0 = ?p" and te: "time_bucket b0 = last_bucket s"
            using obk by auto
          from past b0 obtain s0 where "process_state_map st (pid b0) = Some s0"
            and "time_bucket b0 < last_bucket s0" by blast
          then show False using pe te Some by simp
        qed
        show ?thesis
          using k b old_past new_past dist fresh by (simp add: rollover_inv_def e)
      qed
    qed
  qed
qed

lemma switch_next_rollover:
  assumes inv: "rollover_inv (switch_ktime ctx div NSEC_PER_SEC) st"
  shows "rollover_inv (switch_ktime ctx div NSEC_PER_SEC) (switch_next ctx st)"
proof -
  let ?tb = "switch_ktime ctx div NSEC_PER_SEC"
  from inv have bound: "\<forall>p s. process_state_map st p = Some s \<longrightarrow> last_bucket s \<le> ?tb"
    and past: "\<forall>b \<in> set (sched_events st).
            \<exists>s. process_state_map st (pid b) = Some s \<and> time_bucket b < last_bucket s"
    by (simp_all add: rollover_inv_def)
  have b: "\<forall>p s. process_state_map (switch_next ctx st) p = Some s \<longrightarrow> last_bucket s \<le> ?tb"
  proof (intro allI impI)
    fix p s' assume a: "process_state_map (switch_next ctx st) p = Some s'"
    from switch_next_states[OF a] show "last_bucket s' \<le> ?tb"
    proof
      assume "\<exists>s. process_state_map st p = Some s \<and> last_bucket s' = last_bucket s"
      then show ?thesis using bound by auto
    next
      assume "process_state_map st p = None \<and> last_bucket s' = ?tb"
      then show ?thesis by simp
    qed
  qed
  have pa: "\<forall>b \<in> set (sched_events st).
            \<exists>s. process_state_map (switch_next ctx st) (pid b) = Some s
                 \<and> time_bucket b < last_bucket s"
  proof
    fix b assume "b \<in> set (sched_events st)"
    then obtain s0 where s0: "process_state_map st (pid b) = Some s0"
      and lt: "time_bucket b < last_bucket s0" using past by blast
    from switch_next_last_bucket[OF s0, of ctx] obtain s1 where
      "process_state_map (switch_next ctx st) (pid b) = Some s1" "last_bucket s1 = last_bucket s0"
      by blast
    then show "\<exists>s. process_state_map (switch_next ctx st) (pid b) = Some s
                 \<and> time_bucket b < last_bucket s"
      using lt by simp
  qed
  show ?thesis using inv b pa by (simp add: rollover_inv_def switch_next_fields)
qed

lemma trace_sched_wakeup_rollover:
  assumes inv: "rollover_inv T st" and le: "T \<le> wakeup_ktime ctx div NSEC_PER_SEC"
  shows "rollover_inv (wakeup_ktime ctx div NSEC_PER_SEC) (trace_sched_wakeup ctx st)"
proof (cases "wakeup_pid ctx = 0")
  case True
  then show ?thesis using inv le by (simp add: trace_sched_wakeup_def rollover_inv_mono)
next
  case False
  let ?b = "update_bucket_stats (wakeup_pid ctx) (wakeup_ktime ctx div NSEC_PER_SEC) 0 False
              True (wakeup_comm ctx) (bucket_aggregates st)"
  have eq: "trace_sched_wakeup ctx st = st\<lparr>bucket_aggregates := ?b\<rparr>"
    using False by (simp add: trace_sched_wakeup_def Let_def)
  from inv have keyed: "\<forall>k b. bucket_aggregates st k = Some b \<longrightarrow>
           pid b = key_pid k \<and> time_bucket b = key_time_bucket k"
    by (simp add: rollover_inv_def)
  have k: "\<forall>k b. ?b k = Some b \<longrightarrow> pid b = key_pid k \<and> time_bucket b = key_time_bucket k"
    using keyed by (rule update_bucket_stats_keyed)
  have "rollover_inv T (st\<lparr>bucket_aggregates := ?b\<rparr>)"
    using inv k unfolding rollover_inv_def by simp
  then show ?thesis unfolding eq using le by (rule rollover_inv_mono)
qed

lemma sched_fire_rollover:
  assumes "rollover_inv T st" "T \<le> tracepoint_ktime tp div NSEC_PER_SEC"
  shows "rollover_inv (tracepoint_ktime tp div NSEC_PER_SEC) (sched_fire st tp)"
  using assms
  by (cases tp)
     (simp_all add: trace_sched_switch_def switch_prev_rollover switch_next_rollover
        trace_sched_wakeup_rollover)

lemma u64_div_mono: "(a :: u64) \<le> b \<Longrightarrow> a div c \<le> b div c"
proof -
  assume "a \<le> b"
  then have "unat a \<le> unat b" by (simp only: word_le_nat_alt)
  then have "unat a div unat c \<le> unat b div unat c" by (rule div_le_mono)
  then show ?thesis by (simp only: word_le_nat_alt unat_div)
qed

lemma foldl_sched_fire_rollover:
  assumes "rollover_inv T st" "sorted (map tracepoint_ktime tps)"
    and "\<forall>tp \<in> set tps. T \<le> tracepoint_ktime tp div NSEC_PER_SEC"
  shows "\<exists>T'. rollover_inv T' (foldl sched_fire st tps)"
  using assms
proof (induction tps arbitrary: st T)
  case Nil
  then show ?case by auto
next
  case (Cons tp tps)
  let ?T = "tracepoint_ktime tp div NSEC_PER_SEC"
  have "T \<le> ?T" using Cons.prems(3) by simp
  with Cons.prems(1) have a: "rollover_inv ?T (sched_fire st tp)"
    by (rule sched_fire_rollover)
  have b: "sorted (map tracepoint_ktime tps)" using Cons.prems(2) by simp
  have c: "\<forall>tp' \<in> set tps. ?T \<le> tracepoint_ktime tp' div NSEC_PER_SEC"
  proof
    fix tp' assume "tp' \<in> set tps"
    then have "tracepoint_ktime tp \<le> tracepoint_ktime tp'" using Cons.prems(2) by simp
    then show "?T \<le> tracepoint_ktime tp' div NSEC_PER_SEC" by (rule u64_div_mono)
  qed
  show ?case using Cons.IH[OF a b c] by simp
qed

lemma sched_run_rollover_inv:
  assumes "sorted (map tracepoint_ktime tps)"
  shows "\<exists>T. rollover_inv T (sched_run tps)"
proof -
  have "rollover_inv 0 sched_init" by (simp add: rollover_inv_def sched_init_def)
  then show ?thesis
    unfolding sched_run_def using foldl_sched_fire_rollover[OF _ assms, of 0 sched_init] by auto
qed

lemma trace_sched_switch_found:
  assumes pos: "0 < prev_pid ctx" and found: "process_state_map st (prev_pid ctx) = Some s"
  shows "sched_events (trace_sched_switch ctx st)
           = (if last_bucket s \<noteq> 0 \<and> last_bucket s \<noteq> switch_ktime ctx div NSEC_PER_SEC
              then case bucket_aggregates st
                          \<lparr>key_pid = prev_pid ctx, key_time_bucket = last_bucket s\<rparr> of
                     Some b \<Rightarrow> if switch_reserve_ok ctx then sched_events st @ [b]
                               else sched_events st
                   | None \<Rightarrow> sched_events st
              else sched_events st)"
    and "last_bucket s \<noteq> 0 \<Longrightarrow> last_bucket s \<noteq> switch_ktime ctx div NSEC_PER_SEC \<Longrightarrow>
         bucket_aggregates (trace_sched_switch ctx st)
           \<lparr>key_pid = prev_pid ctx, key_time_bucket = last_bucket s\<rparr> = None"
    and "\<exists>s'. process_state_map (trace_sched_switch ctx st) (prev_pid ctx) = Some s'
              \<and> last_bucket s' = switch_ktime ctx div NSEC_PER_SEC"
proof -
  show "sched_events (trace_sched_switch ctx st)
           = (if last_bucket s \<noteq> 0 \<and> last_bucket s \<noteq> switch_ktime ctx div NSEC_PER_SEC
              then case bucket_aggregates st
                          \<lparr>key_pid = prev_pid ctx, key_time_bucket = last_bucket s\<rparr> of
                     Some b \<Rightarrow> if switch_reserve_ok ctx then sched_events st @ [b]
                               else sched_events st
                   | None \<Rightarrow> sched_events st
              else sched_events st)"
    by (simp only: trace_sched_switch_def switch_next_fields switch_prev_found_events[OF pos found])
next
  assume a: "last_bucket s \<noteq> 0" "last_bucket s \<noteq> switch_ktime ctx div NSEC_PER_SEC"
  have ne: "\<lparr>key_pid = prev_pid ctx, key_time_bucket = last_bucket s\<rparr>
              \<noteq> \<lparr>key_pid = prev_pid ctx, key_time_bucket = switch_ktime ctx div NSEC_PER_SEC\<rparr>"
    using a(2) by simp
  show "bucket_aggregates (trace_sched_switch ctx st)
           \<lparr>key_pid = prev_pid ctx, key_time_bucket = last_bucket s\<rparr> = None"
    unfolding trace_sched_switch_def switch_next_fields switch_prev_found_buckets[OF pos found]
    using a by (simp add: update_bucket_stats_other_key[OF ne])
next
  have "process_state_map (switch_prev ctx st) (prev_pid ctx)
          = Some (s\<lparr>last_bucket := switch_ktime ctx div NSEC_PER_SEC\<rparr>)"
    by (simp add: switch_prev_found_states[OF pos found])
  from switch_next_last_bucket[OF this, of ctx]
  show "\<exists>s'. process_state_map (trace_sched_switch ctx st) (prev_pid ctx) = Some s'
              \<and> last_bucket s' = switch_ktime ctx div NSEC_PER_SEC"
    by (simp add: trace_sched_switch_def)
qed

lemma trace_sched_switch_emits_at_rollover:
  "sched_events (trace_sched_switch ctx st) = sched_events st
   \<or> (\<exists>s b. 0 < prev_pid ctx \<and> process_state_map st (prev_pid ctx) = Some s
          \<and> last_bucket s \<noteq> 0 \<and> last_bucket s \<noteq> switch_ktime ctx div NSEC_PER_SEC
          \<and> switch_reserve_ok ctx
          \<and> bucket_aggregates st \<lparr>key_pid = prev_pid ctx, key_time_bucket = last_bucket s\<rparr>
                = Some b
          \<and> sched_events (trace_sched_switch ctx st) = sched_events st @ [b])"
proof (cases "0 < prev_pid ctx")
  case False
  then show ?thesis by (simp add: trace_sched_switch_def switch_next_fields switch_prev_idle)
next
  case pos: True
  show ?thesis
  proof (cases "process_state_map st (prev_pid ctx)")
    case None
    then show ?thesis using pos
      by (simp add: trace_sched_switch_def switch_next_fields switch_prev_new)
  next
    case (Some s)
    show ?thesis
      using pos Some unfolding trace_sched_switch_found(1)[OF pos Some]
      by (auto split: option.splits)
  qed
qed

text \<open>
  Claim C4, as stated, fails in two places where the code has an explicit branch.
  Window 0: process 7 is switched out in window 0 and again in window 1; the last-seen
  window 0 differs from the current window 1, yet nothing is emitted and the bucket of
  window 0 stays in the map, because the rollover test also requires
  \<^verbatim>\<open>state->last_bucket != 0\<close>. Full ring buffer: process 7 is switched out in window 5 and
  again in window 7 while \<^verbatim>\<open>bpf_ringbuf_reserve\<close> returns NULL; the bucket of window 5 is
  removed from the map and no record is emitted.
\<close>

theorem window_zero_or_full_ring_counterexample:
  "map_option last_bucket
     (process_state_map
        (trace_sched_switch
           \<lparr>switch_ktime = 500000000, prev_pid = 7, prev_state = 1, prev_comm = ''sh'',
             next_pid = 0, next_comm = ''idle'', switch_reserve_ok = True\<rparr> sched_init) 7)
     = Some 0
   \<and> bucket_aggregates
        (trace_sched_switch
           \<lparr>switch_ktime = 500000000, prev_pid = 7, prev_state = 1, prev_comm = ''sh'',
             next_pid = 0, next_comm = ''idle'', switch_reserve_ok = True\<rparr> sched_init)
        \<lparr>key_pid = 7, key_time_bucket = 0\<rparr>
     = Some \<lparr>time_bucket = 0, pid = 7, comm = ''sh'', context_switches = 1,
              voluntary_switches = 1, involuntary_switches = 0, wakeups = 0,
              cpu_time_ns = 0, total_timeslice_ns = 0, timeslice_count = 1\<rparr>
   \<and> (1500000000 :: u64) div NSEC_PER_SEC = 1
   \<and> sched_events
        (trace_sched_switch
           \<lparr>switch_ktime = 1500000000, prev_pid = 7, prev_state = 1, prev_comm = ''sh'',
             next_pid = 0, next_comm = ''idle'', switch_reserve_ok = True\<rparr>
           (trace_sched_switch
              \<lparr>switch_ktime = 500000000, prev_pid = 7, prev_state = 1, prev_comm = ''sh'',
                next_pid = 0, next_comm = ''idle'', switch_reserve_ok = True\<rparr> sched_init))
     = []
   \<and> bucket_aggregates
        (trace_sched_switch
           \<lparr>switch_ktime = 1500000000, prev_pid = 7, prev_state = 1, prev_comm = ''sh'',
             next_pid = 0, next_comm = ''idle'', switch_reserve_ok = True\<rparr>
           (trace_sched_switch
              \<lparr>switch_ktime = 500000000, prev_pid = 7, prev_state = 1, prev_comm = ''sh'',
                next_pid = 0, next_comm = ''idle'', switch_reserve_ok = True\<rparr> sched_init))
        \<lparr>key_pid = 7, key_time_bucket = 0\<rparr>
     = Some \<lparr>time_bucket = 0, pid = 7, comm = ''sh'', context_switches = 1,
              voluntary_switches = 1, involuntary_switches = 0, wakeups = 0,
              cpu_time_ns = 0, total_timeslice_ns = 0, timeslice_count = 1\<rparr>
   \<and> map_option last_bucket
        (process_state_map
           (trace_sched_switch
              \<lparr>switch_ktime = 5500000000, prev_pid = 7, prev_state = 1, prev_comm = ''sh'',
                next_pid = 0, next_comm = ''idle'', switch_reserve_ok = True\<rparr> sched_init) 7)
     = Some 5
   \<and> bucket_aggregates
        (trace_sched_switch
           \<lparr>switch_ktime = 5500000000, prev_pid = 7, prev_state = 1, prev_comm = ''sh'',
             next_pid = 0, next_comm = ''idle'', switch_reserve_ok = True\<rparr> sched_init)
        \<lparr>key_pid = 7, key_time_bucket = 5\<rparr>
     = Some \<lparr>time_bucket = 5, pid = 7, comm = ''sh'', context_switches = 1,
              voluntary_switches = 1, involuntary_switches = 0, wakeups = 0,
              cpu_time_ns = 0, total_timeslice_ns = 0, timeslice_count = 1\<rparr>
   \<and> (7200000000 :: u64) div NSEC_PER_SEC = 7
   \<and> sched_events
        (trace_sched_switch
           \<lparr>switch_ktime = 7200000000, prev_pid = 7, prev_state = 1, prev_comm = ''sh'',
             next_pid = 0, next_comm = ''idle'', switch_reserve_ok = False\<rparr>
           (trace_sched_switch
              \<lparr>switch_ktime = 5500000000, prev_pid = 7, prev_state = 1, prev_comm = ''sh'',
                next_pid = 0, next_comm = ''idle'', switch_reserve_ok = True\<rparr> sched_init))
     = []
   \<and> bucket_aggregates
        (trace_sched_switch
           \<lparr>switch_ktime = 7200000000, prev_pid = 7, prev_state = 1, prev_comm = ''sh'',
             next_pid = 0, next_comm = ''idle'', switch_reserve_ok = False\<rparr>
           (trace_sched_switch
              \<lparr>switch_ktime = 5500000000, prev_pid = 7, prev_state = 1, prev_comm = ''sh'',
                next_pid = 0, next_comm = ''idle'', switch_reserve_ok = True\<rparr> sched_init))
        \<lparr>key_pid = 7, key_time_bucket = 5\<rparr>
     = None"
  by (simp add: trace_sched_switch_def switch_prev_def switch_next_def sched_init_def
        update_bucket_stats_def emit_bucket_stats_def bpf_map_delete_elem_def
        bpf_map_update_elem_def sched_max_entries_def
        NSEC_PER_SEC_def read_comm_def TASK_COMM_LEN_def Let_def)

text \<open>
  The rollover test stands only on the switch-out path of \<^verbatim>\<open>trace_sched_switch\<close>;
  \<^verbatim>\<open>trace_sched_wakeup\<close> creates or updates a bucket without it. In this run process 7 is
  switched out in window 5, woken up in window 6 and switched out in windows 7 and 9: the
  records of windows 5 and 7 are emitted, and the bucket of window 6, which holds the
  wakeup, is still stored at the end. The amended statement below is about state-change
  events only and says nothing about wakeup events.
\<close>

lemma wakeup_only_window_stays_stored:
  "sched_events (sched_run
     [Sched_switch \<lparr>switch_ktime = 5500000000, prev_pid = 7, prev_state = 1, prev_comm = ''sh'',
                    next_pid = 0, next_comm = ''idle'', switch_reserve_ok = True\<rparr>,
      Sched_wakeup \<lparr>wakeup_ktime = 6500000000, wakeup_comm = ''sh'', wakeup_pid = 7\<rparr>,
      Sched_switch \<lparr>switch_ktime = 7500000000, prev_pid = 7, prev_state = 1, prev_comm = ''sh'',
                    next_pid = 0, next_comm = ''idle'', switch_reserve_ok = True\<rparr>,
      Sched_switch \<lparr>switch_ktime = 9500000000, prev_pid = 7, prev_state = 1, prev_comm = ''sh'',
                    next_pid = 0, next_comm = ''idle'', switch_reserve_ok = True\<rparr>])
   = [\<lparr>time_bucket = 5, pid = 7, comm = ''sh'', context_switches = 1,
        voluntary_switches = 1, involuntary_switches = 0, wakeups = 0,
        cpu_time_ns = 0, total_timeslice_ns = 0, timeslice_count = 1\<rparr>,
      \<lparr>time_bucket = 7, pid = 7, comm = ''sh'', context_switches = 1,
        voluntary_switches = 1, involuntary_switches = 0, wakeups = 0,
        cpu_time_ns = 0, total_timeslice_ns = 0, timeslice_count = 1\<rparr>]
   \<and> bucket_aggregates (sched_run
     [Sched_switch \<lparr>switch_ktime = 5500000000, prev_pid = 7, prev_state = 1, prev_comm = ''sh'',
                    next_pid = 0, next_comm = ''idle'', switch_reserve_ok = True\<rparr>,
      Sched_wakeup \<lparr>wakeup_ktime = 6500000000, wakeup_comm = ''sh'', wakeup_pid = 7\<rparr>,
      Sched_switch \<lparr>switch_ktime = 7500000000, prev_pid = 7, prev_state = 1, prev_comm = ''sh'',
                    next_pid = 0, next_comm = ''idle'', switch_reserve_ok = True\<rparr>,
      Sched_switch \<lparr>switch_ktime = 9500000000, prev_pid = 7, prev_state = 1, prev_comm = ''sh'',
                    next_pid = 0, next_comm = ''idle'', switch_reserve_ok = True\<rparr>])
       \<lparr>key_pid = 7, key_time_bucket = 6\<rparr>
   = Some \<lparr>time_bucket = 6, pid = 7, comm = ''sh'', context_switches = 0,
        voluntary_switches = 0, involuntary_switches = 0, wakeups = 1,
        cpu_time_ns = 0, total_timeslice_ns = 0, timeslice_count = 0\<rparr>"
  by (simp add: sched_run_def trace_sched_switch_def switch_prev_def switch_next_def sched_init_def
        trace_sched_wakeup_def update_bucket_stats_def emit_bucket_stats_def
        bpf_map_delete_elem_def bpf_map_update_elem_def sched_max_entries_def
        NSEC_PER_SEC_def read_comm_def TASK_COMM_LEN_def Let_def)

text \<open>
  Claim C4, amended. When a state-change event for entity \<open>e\<close> (a \<^verbatim>\<open>sched_switch\<close> that
  switches \<open>e\<close> out) arrives in a window \<open>W'\<close> different from \<open>e\<close>'s last-seen window \<open>W\<close>, and
  \<open>W\<close> is not 0: the accumulated stats stored for \<open>(e, W)\<close> are removed and, when the
  ring-buffer reservation succeeds, emitted exactly once, as the one record this event
  appends (with a failed reservation, or with nothing stored for \<open>(e, W)\<close>, nothing is
  appended); \<open>(e, W)\<close> is absent from the map afterwards and the last-seen window of \<open>e\<close> is
  \<open>W'\<close>. A \<^verbatim>\<open>sched_switch\<close> event appends a record only at such a transition, and then
  the bucket stored for the last-seen window, so a window with no events is never
  separately emitted. In a run from empty maps whose timestamps never decrease, every
  stored bucket carries the entity and window of its key and no two emitted records have
  the same entity and window.
\<close>

theorem rollover_emits_stored_bucket_once:
  fixes ctx :: sched_switch_ctx and st :: sched_state and s :: process_state
    and tps :: "sched_tracepoint list"
  defines "W' \<equiv> switch_ktime ctx div NSEC_PER_SEC"
  defines "old_key \<equiv> \<lparr>key_pid = prev_pid ctx, key_time_bucket = last_bucket s\<rparr>"
  defines "st' \<equiv> trace_sched_switch ctx st"
  shows "(0 < prev_pid ctx \<and> process_state_map st (prev_pid ctx) = Some s
           \<and> last_bucket s \<noteq> 0 \<and> last_bucket s \<noteq> W' \<longrightarrow>
            (\<forall>b. bucket_aggregates st old_key = Some b \<and> switch_reserve_ok ctx \<longrightarrow>
                   sched_events st' = sched_events st @ [b])
          \<and> (bucket_aggregates st old_key = None \<or> \<not> switch_reserve_ok ctx \<longrightarrow>
                   sched_events st' = sched_events st)
          \<and> bucket_aggregates st' old_key = None
          \<and> (\<exists>s'. process_state_map st' (prev_pid ctx) = Some s' \<and> last_bucket s' = W'))
       \<and> (sched_events st' = sched_events st
           \<or> (\<exists>s0 b. 0 < prev_pid ctx \<and> process_state_map st (prev_pid ctx) = Some s0
                  \<and> last_bucket s0 \<noteq> 0 \<and> last_bucket s0 \<noteq> W'
                  \<and> switch_reserve_ok ctx
                  \<and> bucket_aggregates st
                       \<lparr>key_pid = prev_pid ctx, key_time_bucket = last_bucket s0\<rparr> = Some b
                  \<and> sched_events st' = sched_events st @ [b]))
       \<and> (sorted (map tracepoint_ktime tps) \<longrightarrow>
            distinct (map (\<lambda>b. (pid b, time_bucket b)) (sched_events (sched_run tps)))
          \<and> (\<forall>k b. bucket_aggregates (sched_run tps) k = Some b \<longrightarrow>
                 pid b = key_pid k \<and> time_bucket b = key_time_bucket k))"
proof -
  have step: "0 < prev_pid ctx \<and> process_state_map st (prev_pid ctx) = Some s
           \<and> last_bucket s \<noteq> 0 \<and> last_bucket s \<noteq> W' \<longrightarrow>
            (\<forall>b. bucket_aggregates st old_key = Some b \<and> switch_reserve_ok ctx \<longrightarrow>
                   sched_events st' = sched_events st @ [b])
          \<and> (bucket_aggregates st old_key = None \<or> \<not> switch_reserve_ok ctx \<longrightarrow>
                   sched_events st' = sched_events st)
          \<and> bucket_aggregates st' old_key = None
          \<and> (\<exists>s'. process_state_map st' (prev_pid ctx) = Some s' \<and> last_bucket s' = W')"
  proof (intro impI, elim conjE)
    assume pos: "0 < prev_pid ctx" and found: "process_state_map st (prev_pid ctx) = Some s"
      and nz: "last_bucket s \<noteq> 0" and ne: "last_bucket s \<noteq> W'"
    note f = trace_sched_switch_found[OF pos found]
    have ne': "last_bucket s \<noteq> switch_ktime ctx div NSEC_PER_SEC" using ne by (simp add: W'_def)
    have e1: "\<forall>b. bucket_aggregates st old_key = Some b \<and> switch_reserve_ok ctx \<longrightarrow>
                   sched_events st' = sched_events st @ [b]"
      unfolding st'_def f(1) old_key_def using nz ne' by simp
    have e2: "bucket_aggregates st old_key = None \<or> \<not> switch_reserve_ok ctx \<longrightarrow>
                   sched_events st' = sched_events st"
      unfolding st'_def f(1) old_key_def using nz ne' by (auto split: option.splits)
    have e3: "bucket_aggregates st' old_key = None"
      unfolding st'_def old_key_def using nz ne' by (rule f(2))
    have e4: "\<exists>s'. process_state_map st' (prev_pid ctx) = Some s' \<and> last_bucket s' = W'"
      unfolding st'_def W'_def by (rule f(3))
    show "(\<forall>b. bucket_aggregates st old_key = Some b \<and> switch_reserve_ok ctx \<longrightarrow>
                   sched_events st' = sched_events st @ [b])
          \<and> (bucket_aggregates st old_key = None \<or> \<not> switch_reserve_ok ctx \<longrightarrow>
                   sched_events st' = sched_events st)
          \<and> bucket_aggregates st' old_key = None
          \<and> (\<exists>s'. process_state_map st' (prev_pid ctx) = Some s' \<and> last_bucket s' = W')"
      using e1 e2 e3 e4 by (intro conjI)
  qed
  have only: "sched_events st' = sched_events st
           \<or> (\<exists>s0 b. 0 < prev_pid ctx \<and> process_state_map st (prev_pid ctx) = Some s0
                  \<and> last_bucket s0 \<noteq> 0 \<and> last_bucket s0 \<noteq> W'
                  \<and> switch_reserve_ok ctx
                  \<and> bucket_aggregates st
                       \<lparr>key_pid = prev_pid ctx, key_time_bucket = last_bucket s0\<rparr> = Some b
                  \<and> sched_events st' = sched_events st @ [b])"
    unfolding st'_def W'_def by (rule trace_sched_switch_emits_at_rollover)
  have once: "sorted (map tracepoint_ktime tps) \<longrightarrow>
            distinct (map (\<lambda>b. (pid b, time_bucket b)) (sched_events (sched_run tps)))
          \<and> (\<forall>k b. bucket_aggregates (sched_run tps) k = Some b \<longrightarrow>
                 pid b = key_pid k \<and> time_bucket b = key_time_bucket k)"
  proof
    assume "sorted (map tracepoint_ktime tps)"
    then obtain T where "rollover_inv T (sched_run tps)"
      using sched_run_rollover_inv by blast
    then show "distinct (map (\<lambda>b. (pid b, time_bucket b)) (sched_events (sched_run tps)))
          \<and> (\<forall>k b. bucket_aggregates (sched_run tps) k = Some b \<longrightarrow>
                 pid b = key_pid k \<and> time_bucket b = key_time_bucket k)"
      by (simp add: rollover_inv_def)
  qed
  show ?thesis using step only once by (intro conjI)
qed

theorem rollover_emits_stored_bucket_once_witness:
  "let sw5 = \<lparr>switch_ktime = 5500000000, prev_pid = 7, prev_state = 1, prev_comm = ''sh'',
               next_pid = 0, next_comm = ''swapper'', switch_reserve_ok = True\<rparr>;
       sw7 = \<lparr>switch_ktime = 7200000000, prev_pid = 7, prev_state = 0, prev_comm = ''sh'',
               next_pid = 0, next_comm = ''swapper'', switch_reserve_ok = True\<rparr>;
       b5 = \<lparr>time_bucket = 5, pid = 7, comm = ''sh'', context_switches = 1,
              voluntary_switches = 1, involuntary_switches = 0, wakeups = 0,
              cpu_time_ns = 0, total_timeslice_ns = 0, timeslice_count = 1\<rparr>;
       st5 = trace_sched_switch sw5 sched_init;
       st7 = trace_sched_switch sw7 st5
   in process_state_map st5 7 = Some \<lparr>last_switch_ts = 0, last_bucket = 5, state_comm = ''sh''\<rparr>
      \<and> bucket_aggregates st5 \<lparr>key_pid = 7, key_time_bucket = 5\<rparr> = Some b5
      \<and> sched_events st5 = []
      \<and> sched_events st7 = [b5]
      \<and> bucket_aggregates st7 \<lparr>key_pid = 7, key_time_bucket = 5\<rparr> = None
      \<and> map_option last_bucket (process_state_map st7 7) = Some 7
      \<and> sorted (map tracepoint_ktime [Sched_switch sw5, Sched_switch sw7])
      \<and> distinct (map (\<lambda>b. (pid b, time_bucket b))
           (sched_events (sched_run [Sched_switch sw5, Sched_switch sw7])))"
proof -
  let ?sw5 = "\<lparr>switch_ktime = 5500000000, prev_pid = 7, prev_state = 1, prev_comm = ''sh'',
               next_pid = 0, next_comm = ''swapper'', switch_reserve_ok = True\<rparr>"
  let ?sw7 = "\<lparr>switch_ktime = 7200000000, prev_pid = 7, prev_state = 0, prev_comm = ''sh'',
               next_pid = 0, next_comm = ''swapper'', switch_reserve_ok = True\<rparr>"
  let ?s = "\<lparr>last_switch_ts = 0, last_bucket = 5, state_comm = ''sh''\<rparr>"
  have tb: "switch_ktime ?sw7 div NSEC_PER_SEC = 7" by (simp add: NSEC_PER_SEC_def)
  have srt: "sorted (map tracepoint_ktime [Sched_switch ?sw5, Sched_switch ?sw7])" by simp
  show ?thesis
    unfolding Let_def
    using rollover_emits_stored_bucket_once[of ?sw7 "trace_sched_switch ?sw5 sched_init" ?s
            "[Sched_switch ?sw5, Sched_switch ?sw7]"] srt
    unfolding tb run_example_first
    by auto
qed

end
